theory Spec2Isabelle
  imports Main "HOL-Library.Word"
begin

unbundle bit_operations_syntax

section \<open>The views plugin of simpledns: data model\<close>

text \<open>
  The development follows \<^verbatim>\<open>setup.go\<close> of package \<^verbatim>\<open>views\<close>. Go lets several structs
  share a field name; HOL record fields are global, so every field carries a short prefix
  naming its struct (\<open>rca_\<close> for \<^verbatim>\<open>RawClientACL\<close>, \<open>rre_\<close> for the anonymous element
  struct of \<^verbatim>\<open>RawRecord.Records\<close>, \<open>rr_\<close> for \<^verbatim>\<open>RawRecord\<close>, \<open>acl_\<close> for
  \<^verbatim>\<open>ClientACL\<close>, \<open>z_\<close> for \<^verbatim>\<open>Zone\<close>, \<open>zs_\<close> for \<^verbatim>\<open>Zones\<close>, \<open>v_\<close> for \<^verbatim>\<open>Views\<close>).
  Strings are byte strings (\<^typ>\<open>char list\<close>), \<^verbatim>\<open>uint32\<close> is \<^typ>\<open>32 word\<close> and
  \<^verbatim>\<open>uint16\<close> is \<^typ>\<open>16 word\<close>.
\<close>

record RawClientACL =
  rca_Name :: string
  rca_CIDRPrefixes :: "string list"

record RawRecordEntry =
  rre_Name :: string
  rre_TTL :: "32 word"
  rre_Type :: string
  rre_Value :: string

record RawRecord =
  rr_Name :: string
  rr_Records :: "RawRecordEntry list"

text \<open>
  \<^verbatim>\<open>ClientACL\<close>, \<^verbatim>\<open>Zone\<close>, \<^verbatim>\<open>Zones\<close> and \<^verbatim>\<open>Views\<close> are declared outside
  \<^verbatim>\<open>setup.go\<close>; their fields are the ones \<^verbatim>\<open>parse\<close> and \<^verbatim>\<open>loadConfig\<close> read and write.
  The type \<open>'n\<close> stands for \<^verbatim>\<open>*net.IPNet\<close>. The fields \<^verbatim>\<open>Upstream\<close> and \<^verbatim>\<open>Next\<close> of
  \<^verbatim>\<open>Views\<close> are handles of the surrounding server and carry no configuration.
\<close>

record 'n ClientACL =
  acl_Name :: string
  acl_CIDRNets :: "'n list"

record Zone =
  z_Name :: string
  z_TTL :: "32 word"
  z_Type :: "16 word"
  z_Value :: string

record Zones =
  zs_Names :: "string list"
  zs_Z :: "string \<rightharpoonup> Zone"

text \<open>
  The schema constants \<^verbatim>\<open>SchemaYAML\<close> and \<^verbatim>\<open>SchemaHTTP\<close> are string constants declared
  outside \<^verbatim>\<open>setup.go\<close>. They label the two cases of one \<^verbatim>\<open>switch\<close>, hence they differ;
  \<open>SchemaOther\<close> stands for every other string (among them the empty string that
  \<^verbatim>\<open>schemaCheck\<close> returns with its error).
\<close>

datatype schema = SchemaYAML | SchemaHTTP | SchemaOther

record 'n Views =
  v_Client :: string
  v_Record :: string
  v_ClientSchema :: schema
  v_RecordSchema :: schema
  v_ReloadInterval :: "64 word"
  v_ClientACLs :: "'n ClientACL list"
  v_ClientZones :: "string \<rightharpoonup> Zones"

text \<open>The logger: \<^verbatim>\<open>log.Error\<close> and \<^verbatim>\<open>log.Warningf\<close> append a line each.\<close>

datatype log_entry = LogError string | LogWarning string

section \<open>Library functions\<close>

subsection \<open>Upper and lower case\<close>

text \<open>
  \<^verbatim>\<open>strings.ToUpper\<close> and \<^verbatim>\<open>strings.ToLower\<close> on the bytes of ASCII text: a letter changes
  case, every other byte stays.
\<close>

definition upper_char :: "char \<Rightarrow> char" where
  "upper_char c =
     (let n = (of_char c :: nat) in if 97 \<le> n \<and> n \<le> 122 then char_of (n - 32) else c)"

definition lower_char :: "char \<Rightarrow> char" where
  "lower_char c =
     (let n = (of_char c :: nat) in if 65 \<le> n \<and> n \<le> 90 then char_of (n + 32) else c)"

definition ToUpper :: "string \<Rightarrow> string" where
  "ToUpper s = map upper_char s"

definition ToLower :: "string \<Rightarrow> string" where
  "ToLower s = map lower_char s"

subsection \<open>Record types of the DNS library\<close>

definition TypeNone :: "16 word" where "TypeNone = 0"
definition TypeA :: "16 word" where "TypeA = 1"
definition TypeCNAME :: "16 word" where "TypeCNAME = 5"
definition TypeTXT :: "16 word" where "TypeTXT = 16"
definition TypeAAAA :: "16 word" where "TypeAAAA = 28"

subsection \<open>Normalization of names\<close>

text \<open>
  Modelled from the spec: \<^verbatim>\<open>plugin.Host(s).Normalize()\<close> is a function of the server
  framework and is not part of \<^verbatim>\<open>setup.go\<close>. The specification describes its result as
  the canonical form of a name, "lower-cased, fully-qualified with trailing separator":
  \<open>Fqdn\<close> appends the separator \<open>.\<close> unless the name already ends in it, and
  \<open>Normalize\<close> lower-cases the fully qualified name.
\<close>

definition Fqdn :: "string \<Rightarrow> string" where
  "Fqdn s = (if s \<noteq> [] \<and> last s = CHR ''.'' then s else s @ ''.'')"

definition Normalize :: "string \<Rightarrow> string" where
  "Normalize s = ToLower (Fqdn s)"

section \<open>Fetching the sources\<close>

text \<open>
  \<^verbatim>\<open>parseFromYAML\<close> and \<^verbatim>\<open>parseFromHTTP\<close> read a file or an HTTP body and decode it into
  the slice behind \<^verbatim>\<open>out\<close>. What they return depends on the world outside the program
  only, so the world is a parameter: for each locator, the slice left behind \<^verbatim>\<open>out\<close>
  (empty when the source could not be read, possibly filled in part when decoding stopped
  at an error) and the error, if any.
\<close>

type_synonym 'a fetched = "'a list \<times> string option"

record sources =
  yaml_clients :: "string \<Rightarrow> RawClientACL fetched"
  http_clients :: "string \<Rightarrow> RawClientACL fetched"
  yaml_records :: "string \<Rightarrow> RawRecord fetched"
  http_records :: "string \<Rightarrow> RawRecord fetched"

text \<open>
  The two \<^verbatim>\<open>switch\<close> statements at the head of \<^verbatim>\<open>loadConfig\<close>. A schema that is neither
  constant runs no case: the slice stays \<^verbatim>\<open>nil\<close> and \<^verbatim>\<open>err\<close> keeps its value (\<^verbatim>\<open>nil\<close>
  before the first switch, the first switch's error before the second).
\<close>

definition fetchClients :: "sources \<Rightarrow> 'n Views \<Rightarrow> RawClientACL fetched" where
  "fetchClients w v =
     (case v_ClientSchema v of
        SchemaYAML \<Rightarrow> yaml_clients w (v_Client v)
      | SchemaHTTP \<Rightarrow> http_clients w (v_Client v)
      | SchemaOther \<Rightarrow> ([], None))"

definition fetchRecords :: "sources \<Rightarrow> 'n Views \<Rightarrow> string option \<Rightarrow> RawRecord fetched" where
  "fetchRecords w v err =
     (case v_RecordSchema v of
        SchemaYAML \<Rightarrow> yaml_records w (v_Record v)
      | SchemaHTTP \<Rightarrow> http_records w (v_Record v)
      | SchemaOther \<Rightarrow> ([], err))"

definition logError :: "string option \<Rightarrow> log_entry list" where
  "logError err = (case err of None \<Rightarrow> [] | Some e \<Rightarrow> [LogError e])"

section \<open>Building the client groups\<close>

text \<open>
  The inner loop over \<^verbatim>\<open>client.CIDRPrefixes\<close>: \<open>pc\<close> is \<^verbatim>\<open>net.ParseCIDR\<close> (its network
  result, \<open>None\<close> for an error). The loop state is the slice \<^verbatim>\<open>cidrNets\<close> and the log.
\<close>

definition invalidCIDR :: "string \<Rightarrow> string \<Rightarrow> log_entry" where
  "invalidCIDR name cidr = LogWarning (''invalid CIDR address: '' @ name @ '' ('' @ cidr @ '')'')"

definition cidr_step ::
  "(string \<Rightarrow> 'n option) \<Rightarrow> string \<Rightarrow> string \<Rightarrow> 'n list \<times> log_entry list \<Rightarrow> 'n list \<times> log_entry list"
where
  "cidr_step pc name cidr st =
     (case pc cidr of
        None \<Rightarrow> (fst st, snd st @ [invalidCIDR name cidr])
      | Some cidrNet \<Rightarrow> (fst st @ [cidrNet], snd st))"

text \<open>The outer loop over \<^verbatim>\<open>rawClients\<close>: its state is \<^verbatim>\<open>v.ClientACLs\<close> and the log.\<close>

definition client_step ::
  "(string \<Rightarrow> 'n option) \<Rightarrow> RawClientACL \<Rightarrow> 'n ClientACL list \<times> log_entry list
     \<Rightarrow> 'n ClientACL list \<times> log_entry list"
where
  "client_step pc client st =
     (let r = fold (cidr_step pc (rca_Name client)) (rca_CIDRPrefixes client) ([], snd st)
      in (fst st @ [\<lparr>acl_Name = rca_Name client, acl_CIDRNets = fst r\<rparr>], snd r))"

definition buildACLs ::
  "(string \<Rightarrow> 'n option) \<Rightarrow> RawClientACL list \<Rightarrow> log_entry list
     \<Rightarrow> 'n ClientACL list \<times> log_entry list"
where
  "buildACLs pc rawClients lg = fold (client_step pc) rawClients ([], lg)"

section \<open>Building the record sets\<close>

text \<open>The \<^verbatim>\<open>switch\<close> on the upper-cased type string; \<^verbatim>\<open>rrtype\<close> starts as zero.\<close>

definition rrtype_of :: "string \<Rightarrow> 16 word" where
  "rrtype_of ty =
     (let t = ToUpper ty in
      if t = ''A'' then TypeA
      else if t = ''AAAA'' then TypeAAAA
      else if t = ''CNAME'' then TypeCNAME
      else if t = ''TXT'' then TypeTXT
      else 0)"

definition mkZone :: "RawRecordEntry \<Rightarrow> Zone" where
  "mkZone rawRecord =
     \<lparr>z_Name = Normalize (rre_Name rawRecord),
      z_TTL = rre_TTL rawRecord,
      z_Type = rrtype_of (rre_Type rawRecord),
      z_Value = Normalize (rre_Value rawRecord)\<rparr>"

text \<open>The inner loop over \<^verbatim>\<open>r.Records\<close>, on the loop state \<^verbatim>\<open>zones\<close>.\<close>

definition record_step :: "RawRecordEntry \<Rightarrow> Zones \<Rightarrow> Zones" where
  "record_step rawRecord zones =
     (let rr = mkZone rawRecord
      in \<lparr>zs_Names = zs_Names zones @ [z_Name rr], zs_Z = (zs_Z zones)(z_Name rr \<mapsto> rr)\<rparr>)"

definition buildZones :: "RawRecordEntry list \<Rightarrow> Zones" where
  "buildZones records = fold record_step records \<lparr>zs_Names = [], zs_Z = Map.empty\<rparr>"

text \<open>The outer loop over \<^verbatim>\<open>rawRecords\<close>, on the loop state \<^verbatim>\<open>v.ClientZones\<close>.\<close>

definition set_step :: "RawRecord \<Rightarrow> (string \<rightharpoonup> Zones) \<Rightarrow> (string \<rightharpoonup> Zones)" where
  "set_step r cz = cz(rr_Name r \<mapsto> buildZones (rr_Records r))"

definition buildClientZones :: "RawRecord list \<Rightarrow> (string \<rightharpoonup> Zones)" where
  "buildClientZones rawRecords = fold set_step rawRecords Map.empty"

section \<open>loadConfig\<close>

text \<open>
  One run of \<^verbatim>\<open>loadConfig\<close> on the state \<open>v\<close> in the world \<open>w\<close>: the new state and the
  lines logged. Both errors are logged and neither stops the function; the two fields
  are then rebuilt from whatever the decoders left in \<^verbatim>\<open>rawClients\<close> and \<^verbatim>\<open>rawRecords\<close>.
\<close>

definition loadConfig ::
  "(string \<Rightarrow> 'n option) \<Rightarrow> sources \<Rightarrow> 'n Views \<Rightarrow> 'n Views \<times> log_entry list"
where
  "loadConfig pc w v =
     (let (rawClients, err1) = fetchClients w v;
          lg1 = logError err1;
          (rawRecords, err2) = fetchRecords w v err1;
          lg2 = lg1 @ logError err2;
          (acls, lg3) = buildACLs pc rawClients lg2
      in (v\<lparr>v_ClientACLs := acls, v_ClientZones := buildClientZones rawRecords\<rparr>, lg3))"

section \<open>Matching and resolving\<close>

text \<open>
  Modelled from the spec: the address-group matcher of the query path lives outside
  \<^verbatim>\<open>setup.go\<close>. The specification (4.1): iterate the configured groups in their declared
  order; for each group, test whether the client address falls inside any of its prefixes;
  return the name of the first group with a matching prefix; none if no group matches.
  \<open>contains\<close> is \<^verbatim>\<open>IPNet.Contains\<close>.
\<close>

fun match :: "('n \<Rightarrow> 'a \<Rightarrow> bool) \<Rightarrow> 'n ClientACL list \<Rightarrow> 'a \<Rightarrow> string option" where
  "match contains [] clientAddress = None"
| "match contains (g # groups) clientAddress =
     (if list_ex (\<lambda>prefix. contains prefix clientAddress) (acl_CIDRNets g)
      then Some (acl_Name g)
      else match contains groups clientAddress)"

datatype result = Answer "32 word" "16 word" string | Decline

text \<open>
  Modelled from the spec: the query resolver lives outside \<^verbatim>\<open>setup.go\<close>. The
  specification (4.4): match the client address, decline if no group matches; look up the
  record set under the matched group's name, decline if absent; normalize the query name
  and look up the entry, decline if absent; decline if the entry's type does not match the
  query type or is UNKNOWN (the zero type that \<^verbatim>\<open>loadConfig\<close> stores for an unrecognized
  type string); otherwise answer with the entry's TTL, type and value.
\<close>

definition resolve ::
  "('n \<Rightarrow> 'a \<Rightarrow> bool) \<Rightarrow> 'n Views \<Rightarrow> 'a \<Rightarrow> string \<Rightarrow> 16 word \<Rightarrow> result"
where
  "resolve contains v clientAddress queryName queryType =
     (case match contains (v_ClientACLs v) clientAddress of
        None \<Rightarrow> Decline
      | Some g \<Rightarrow>
          (case v_ClientZones v g of
             None \<Rightarrow> Decline
           | Some recordSet \<Rightarrow>
               (case zs_Z recordSet (Normalize queryName) of
                  None \<Rightarrow> Decline
                | Some entry \<Rightarrow>
                    if z_Type entry \<noteq> queryType \<or> z_Type entry = TypeNone then Decline
                    else Answer (z_TTL entry) (z_Type entry) (z_Value entry))))"

section \<open>Notions used in the statements\<close>

text \<open>The local variables \<^verbatim>\<open>rawClients\<close> and \<^verbatim>\<open>rawRecords\<close> of one run of \<^verbatim>\<open>loadConfig\<close>.\<close>

definition rawClients :: "sources \<Rightarrow> 'n Views \<Rightarrow> RawClientACL list" where
  "rawClients w v = fst (fetchClients w v)"

definition rawRecords :: "sources \<Rightarrow> 'n Views \<Rightarrow> RawRecord list" where
  "rawRecords w v = fst (fetchRecords w v (snd (fetchClients w v)))"

text \<open>A raw group contains an address: one of its prefix strings parses to a network containing it.\<close>

definition raw_contains ::
  "(string \<Rightarrow> 'n option) \<Rightarrow> ('n \<Rightarrow> 'a \<Rightarrow> bool) \<Rightarrow> RawClientACL \<Rightarrow> 'a \<Rightarrow> bool"
where
  "raw_contains pc contains g x =
     list_ex (\<lambda>p. case pc p of None \<Rightarrow> False | Some n \<Rightarrow> contains n x) (rca_CIDRPrefixes g)"

text \<open>
  What one iteration of the loop over \<^verbatim>\<open>rawClients\<close> appends: the group built from a
  raw group (its prefixes that parse, in order) and the warnings for those that do not.
\<close>

definition aclOf :: "(string \<Rightarrow> 'n option) \<Rightarrow> RawClientACL \<Rightarrow> 'n ClientACL" where
  "aclOf pc client =
     \<lparr>acl_Name = rca_Name client, acl_CIDRNets = List.map_filter pc (rca_CIDRPrefixes client)\<rparr>"

definition warningsOf :: "(string \<Rightarrow> 'n option) \<Rightarrow> RawClientACL \<Rightarrow> log_entry list" where
  "warningsOf pc client =
     map (invalidCIDR (rca_Name client)) (filter (\<lambda>c. pc c = None) (rca_CIDRPrefixes client))"

text \<open>
  Two names are variants of each other when they differ in letter case and in the
  presence of one trailing separator only.
\<close>

definition stripDot :: "string \<Rightarrow> string" where
  "stripDot s = (if s \<noteq> [] \<and> last s = CHR ''.'' then butlast s else s)"

definition variant :: "string \<Rightarrow> string \<Rightarrow> bool" where
  "variant a b = (ToLower (stripDot a) = ToLower (stripDot b))"

section \<open>The writes of loadConfig\<close>

text \<open>
  \<^verbatim>\<open>loadConfig\<close> works on the receiver \<open>v\<close> itself, the value that the query path
  reads. Its writes to \<open>v\<close> are the assignment of the empty slice to \<^verbatim>\<open>v.ClientACLs\<close>,
  one \<^verbatim>\<open>append\<close> to \<^verbatim>\<open>v.ClientACLs\<close> for each raw group, the assignment of a fresh map
  to \<^verbatim>\<open>v.ClientZones\<close>, and one store into \<^verbatim>\<open>v.ClientZones\<close> for each raw record set.
  The trace lists the state of \<open>v\<close> after each of these writes, in program order; the
  sources are read before the first write. The slice \<^verbatim>\<open>cidrNets\<close> and the value
  \<^verbatim>\<open>zones\<close> are locals, built in full before the write that publishes them.
\<close>

fun clients_trace :: "(string \<Rightarrow> 'n option) \<Rightarrow> RawClientACL list \<Rightarrow> 'n Views \<Rightarrow> 'n Views list" where
  "clients_trace pc [] v = []"
| "clients_trace pc (client # rest) v =
     (let v' = v\<lparr>v_ClientACLs := fst (client_step pc client (v_ClientACLs v, []))\<rparr>
      in v' # clients_trace pc rest v')"

fun records_trace :: "RawRecord list \<Rightarrow> 'n Views \<Rightarrow> 'n Views list" where
  "records_trace [] v = []"
| "records_trace (r # rest) v =
     (let v' = v\<lparr>v_ClientZones := set_step r (v_ClientZones v)\<rparr>
      in v' # records_trace rest v')"

definition loadConfig_trace :: "(string \<Rightarrow> 'n option) \<Rightarrow> sources \<Rightarrow> 'n Views \<Rightarrow> 'n Views list" where
  "loadConfig_trace pc w v =
     (let v1 = v\<lparr>v_ClientACLs := []\<rparr>;
          t1 = clients_trace pc (rawClients w v) v1;
          v2 = last (v1 # t1);
          v3 = v2\<lparr>v_ClientZones := Map.empty\<rparr>;
          t2 = records_trace (rawRecords w v) v3
      in v1 # t1 @ v3 # t2)"

section \<open>An IPv4 instance and a sample configuration\<close>

text \<open>
  \<^verbatim>\<open>net.ParseCIDR\<close> and \<^verbatim>\<open>IPNet.Contains\<close> are parameters of the development. To run the
  model on concrete inputs, here is an instance for dotted-decimal IPv4 prefixes: a network
  is its masked address and its mask.
\<close>

fun dtoi_from :: "nat \<Rightarrow> string \<Rightarrow> nat option" where
  "dtoi_from n [] = Some n"
| "dtoi_from n (c # cs) =
     (let d = (of_char c :: nat) in
      if 48 \<le> d \<and> d \<le> 57 then dtoi_from (10 * n + (d - 48)) cs else None)"

definition dtoi :: "string \<Rightarrow> nat option" where
  "dtoi s = (if s = [] then None else dtoi_from 0 s)"

fun split_on :: "char \<Rightarrow> string \<Rightarrow> string list" where
  "split_on sep [] = [[]]"
| "split_on sep (c # cs) =
     (if c = sep then [] # split_on sep cs
      else (case split_on sep cs of [] \<Rightarrow> [[c]] | part # parts \<Rightarrow> (c # part) # parts))"

definition octet :: "string \<Rightarrow> nat option" where
  "octet s = (case dtoi s of None \<Rightarrow> None | Some n \<Rightarrow> if n \<le> 255 then Some n else None)"

definition parse_ipv4 :: "string \<Rightarrow> 32 word option" where
  "parse_ipv4 s =
     (let parts = split_on CHR ''.'' s in
      if length parts \<noteq> 4 then None
      else map_option (\<lambda>os. word_of_nat (foldl (\<lambda>acc b. acc * 256 + b) 0 os))
             (those (map octet parts)))"

definition ipv4_cidr :: "string \<Rightarrow> (32 word \<times> 32 word) option" where
  "ipv4_cidr s =
     (let parts = split_on CHR ''/'' s in
      if length parts \<noteq> 2 then None
      else (case parse_ipv4 (parts ! 0) of
              None \<Rightarrow> None
            | Some ip \<Rightarrow>
                (case dtoi (parts ! 1) of
                   None \<Rightarrow> None
                 | Some n \<Rightarrow>
                     if n \<le> 32
                     then Some (ip AND NOT (mask (32 - n)), NOT (mask (32 - n)))
                     else None)))"

definition ipv4_contains :: "32 word \<times> 32 word \<Rightarrow> 32 word \<Rightarrow> bool" where
  "ipv4_contains n ip = (ip AND snd n = fst n)"

text \<open>
  The sample configuration: group \<open>internal\<close> (with one malformed prefix) before the
  catch-all group \<open>external\<close>, and a record set for each. The record set \<open>internal\<close>
  declares the name \<open>dup.example.com\<close> twice, a TXT record and a record of a type that
  \<^verbatim>\<open>loadConfig\<close> does not know.
\<close>

definition sample_internal :: RawClientACL where
  "sample_internal = \<lparr>rca_Name = ''internal'', rca_CIDRPrefixes = [''10.0.0.0/8'', ''10.0.0.0/33'']\<rparr>"

definition sample_external :: RawClientACL where
  "sample_external = \<lparr>rca_Name = ''external'', rca_CIDRPrefixes = [''0.0.0.0/0'']\<rparr>"

definition sample_clients :: "RawClientACL list" where
  "sample_clients = [sample_internal, sample_external]"

definition entry_host :: RawRecordEntry where
  "entry_host = \<lparr>rre_Name = ''host.example.com'', rre_TTL = 300, rre_Type = ''A'', rre_Value = ''10.1.2.3''\<rparr>"

definition entry_dup1 :: RawRecordEntry where
  "entry_dup1 = \<lparr>rre_Name = ''dup.example.com'', rre_TTL = 60, rre_Type = ''a'', rre_Value = ''10.0.0.1''\<rparr>"

definition entry_dup2 :: RawRecordEntry where
  "entry_dup2 = \<lparr>rre_Name = ''DUP.Example.com.'', rre_TTL = 120, rre_Type = ''cname'', rre_Value = ''Host.Example.com''\<rparr>"

definition entry_txt :: RawRecordEntry where
  "entry_txt = \<lparr>rre_Name = ''note.example.com'', rre_TTL = 30, rre_Type = ''TXT'', rre_Value = ''Hello World''\<rparr>"

definition entry_srv :: RawRecordEntry where
  "entry_srv = \<lparr>rre_Name = ''srv.example.com'', rre_TTL = 30, rre_Type = ''SRV'', rre_Value = ''host.example.com''\<rparr>"

definition sample_internal_records :: RawRecord where
  "sample_internal_records =
     \<lparr>rr_Name = ''internal'', rr_Records = [entry_host, entry_dup1, entry_dup2, entry_txt, entry_srv]\<rparr>"

definition sample_external_records :: RawRecord where
  "sample_external_records =
     \<lparr>rr_Name = ''external'',
      rr_Records = [\<lparr>rre_Name = ''host.example.com'', rre_TTL = 300, rre_Type = ''A'', rre_Value = ''203.0.113.9''\<rparr>]\<rparr>"

definition sample_records :: "RawRecord list" where
  "sample_records = [sample_internal_records, sample_external_records]"

text \<open>A world where both files decode, and a world where no source can be read.\<close>

definition good_sources :: sources where
  "good_sources =
     \<lparr>yaml_clients = (\<lambda>_. (sample_clients, None)),
      http_clients = (\<lambda>_. (sample_clients, None)),
      yaml_records = (\<lambda>_. (sample_records, None)),
      http_records = (\<lambda>_. (sample_records, None))\<rparr>"

definition down_sources :: sources where
  "down_sources =
     \<lparr>yaml_clients = (\<lambda>_. ([], Some ''open: no such file or directory'')),
      http_clients = (\<lambda>_. ([], Some ''connection refused'')),
      yaml_records = (\<lambda>_. ([], Some ''open: no such file or directory'')),
      http_records = (\<lambda>_. ([], Some ''connection refused''))\<rparr>"

text \<open>
  Two more client sources: one whose first group has malformed prefixes only and which has
  no catch-all group, and the sample with the malformed prefix of \<open>internal\<close> left out.
\<close>

definition sample_broken :: RawClientACL where
  "sample_broken = \<lparr>rca_Name = ''broken'', rca_CIDRPrefixes = [''10.0.0.0/33'', ''ten.slash.eight'']\<rparr>"

definition partial_sources :: sources where
  "partial_sources =
     \<lparr>yaml_clients = (\<lambda>_. ([sample_broken, sample_internal], None)),
      http_clients = (\<lambda>_. ([sample_broken, sample_internal], None)),
      yaml_records = (\<lambda>_. (sample_records, None)),
      http_records = (\<lambda>_. (sample_records, None))\<rparr>"

definition clean_sources :: sources where
  "clean_sources =
     \<lparr>yaml_clients = (\<lambda>_. ([sample_internal\<lparr>rca_CIDRPrefixes := [''10.0.0.0/8'']\<rparr>, sample_external], None)),
      http_clients = (\<lambda>_. ([sample_internal\<lparr>rca_CIDRPrefixes := [''10.0.0.0/8'']\<rparr>, sample_external], None)),
      yaml_records = (\<lambda>_. (sample_records, None)),
      http_records = (\<lambda>_. (sample_records, None))\<rparr>"

text \<open>A world where the client file decodes and the record file cannot be read.\<close>

definition records_down_sources :: sources where
  "records_down_sources =
     \<lparr>yaml_clients = (\<lambda>_. (sample_clients, None)),
      http_clients = (\<lambda>_. (sample_clients, None)),
      yaml_records = (\<lambda>_. ([], Some ''open: no such file or directory'')),
      http_records = (\<lambda>_. ([], Some ''connection refused''))\<rparr>"

text \<open>The state that \<^verbatim>\<open>parse\<close> returns for two YAML files and the default interval of 30 s.\<close>

definition initial_views :: "(32 word \<times> 32 word) Views" where
  "initial_views =
     \<lparr>v_Client = ''clients.yaml'', v_Record = ''records.yaml'',
      v_ClientSchema = SchemaYAML, v_RecordSchema = SchemaYAML,
      v_ReloadInterval = 30000000000,
      v_ClientACLs = [], v_ClientZones = Map.empty\<rparr>"

definition serving_views :: "(32 word \<times> 32 word) Views" where
  "serving_views = fst (loadConfig ipv4_cidr good_sources initial_views)"

section \<open>Auxiliary facts\<close>

subsection \<open>Lists\<close>

lemma find_app:
  "find P (xs @ ys) = (case find P xs of None \<Rightarrow> find P ys | Some x \<Rightarrow> Some x)"
  by (induction xs) simp_all

lemma find_rev_last:
  "P x \<Longrightarrow> \<forall>y\<in>set post. \<not> P y \<Longrightarrow> find P (rev (pre @ x # post)) = Some x"
proof -
  assume px: "P x" and none: "\<forall>y\<in>set post. \<not> P y"
  from none have "find P (rev post) = None"
    by (simp add: find_None_iff)
  with px show ?thesis
    by (simp add: find_app)
qed

lemma find_rev_SomeD:
  "find P (rev xs) = Some x \<Longrightarrow> \<exists>pre post. xs = pre @ x # post \<and> P x \<and> (\<forall>y\<in>set post. \<not> P y)"
proof (induction xs rule: rev_induct)
  case Nil
  then show ?case by simp
next
  case (snoc a xs)
  show ?case
  proof (cases "P a")
    case True
    with snoc.prems have "a = x" by simp
    with True have "xs @ [a] = xs @ x # [] \<and> P x \<and> (\<forall>y\<in>set []. \<not> P y)" by simp
    then show ?thesis by blast
  next
    case False
    with snoc.prems have "find P (rev xs) = Some x" by simp
    from snoc.IH [OF this] obtain pre post
      where "xs = pre @ x # post" "P x" "\<forall>y\<in>set post. \<not> P y" by blast
    with False have "xs @ [a] = pre @ x # (post @ [a]) \<and> P x \<and> (\<forall>y\<in>set (post @ [a]). \<not> P y)"
      by simp
    then show ?thesis by blast
  qed
qed

lemma list_ex_map_filter:
  "list_ex Q (List.map_filter f xs) = list_ex (\<lambda>x. case f x of None \<Rightarrow> False | Some y \<Rightarrow> Q y) xs"
  by (induction xs) (simp_all split: option.splits)

subsection \<open>Letter case and normalization\<close>

lemma of_char_lower:
  "(of_char (lower_char c) :: nat) =
     (if 65 \<le> (of_char c :: nat) \<and> (of_char c :: nat) \<le> 90 then of_char c + 32 else of_char c)"
  by (simp add: lower_char_def Let_def)

lemma of_char_upper:
  "(of_char (upper_char c) :: nat) =
     (if 97 \<le> (of_char c :: nat) \<and> (of_char c :: nat) \<le> 122 then of_char c - 32 else of_char c)"
  by (auto simp: upper_char_def Let_def)

lemma char_eq_by_code: "c = d \<longleftrightarrow> (of_char c :: nat) = of_char d"
  by simp

lemma lower_char_idem: "lower_char (lower_char c) = lower_char c"
  by (simp add: char_eq_by_code of_char_lower)

lemma lower_upper_char: "lower_char (upper_char c) = lower_char c"
  by (auto simp: char_eq_by_code of_char_lower of_char_upper)

lemma upper_lower_char: "upper_char (lower_char c) = upper_char c"
  by (auto simp: char_eq_by_code of_char_lower of_char_upper)

lemma ToLower_idem: "ToLower (ToLower s) = ToLower s"
  by (simp add: ToLower_def lower_char_idem)

lemma ToLower_ToUpper: "ToLower (ToUpper s) = ToLower s"
  by (simp add: ToLower_def ToUpper_def lower_upper_char)

lemma ToUpper_ToLower: "ToUpper (ToLower s) = ToUpper s"
  by (simp add: ToLower_def ToUpper_def upper_lower_char)

lemma ToUpper_cong_lower: "ToLower a = ToLower b \<Longrightarrow> ToUpper a = ToUpper b"
  by (metis ToUpper_ToLower)

lemma Fqdn_stripDot: "Fqdn s = stripDot s @ ''.''"
  by (simp add: Fqdn_def stripDot_def) (metis append_butlast_last_id)

lemma Normalize_stripDot: "Normalize s = ToLower (stripDot s) @ ''.''"
  by (simp add: Normalize_def Fqdn_stripDot ToLower_def char_eq_by_code of_char_lower)

lemma stripDot_snoc: "stripDot (s @ ''.'') = s"
  by (simp add: stripDot_def)

lemma Normalize_idem: "Normalize (Normalize s) = Normalize s"
  by (simp add: Normalize_stripDot [of "ToLower (stripDot s) @ ''.''"] stripDot_snoc ToLower_idem
      Normalize_stripDot [of s])

lemma Normalize_eq_iff: "Normalize a = Normalize b \<longleftrightarrow> variant a b"
  by (simp add: Normalize_stripDot variant_def)

subsection \<open>The loops of loadConfig\<close>

lemma cidr_step_None:
  "pc c = None \<Longrightarrow> cidr_step pc nm c st = (fst st, snd st @ [invalidCIDR nm c])"
  by (simp add: cidr_step_def)

lemma cidr_step_Some:
  "pc c = Some n \<Longrightarrow> cidr_step pc nm c st = (fst st @ [n], snd st)"
  by (simp add: cidr_step_def)

lemma fold_cidr_step:
  "fold (cidr_step pc nm) cs st =
     (fst st @ List.map_filter pc cs,
      snd st @ map (invalidCIDR nm) (filter (\<lambda>c. pc c = None) cs))"
proof (induction cs arbitrary: st)
  case Nil
  show ?case by simp
next
  case (Cons c cs)
  show ?case
    by (cases "pc c") (simp_all add: Cons.IH cidr_step_None cidr_step_Some)
qed

lemma client_step_eq:
  "client_step pc client st = (fst st @ [aclOf pc client], snd st @ warningsOf pc client)"
  by (simp add: client_step_def fold_cidr_step aclOf_def warningsOf_def)

lemma fold_client_step:
  "fold (client_step pc) cs st =
     (fst st @ map (aclOf pc) cs, snd st @ concat (map (warningsOf pc) cs))"
  by (induction cs arbitrary: st) (simp_all add: client_step_eq)

lemma buildACLs_eq:
  "buildACLs pc cs lg = (map (aclOf pc) cs, lg @ concat (map (warningsOf pc) cs))"
  by (simp add: buildACLs_def fold_client_step)

lemma fold_record_step_Names:
  "zs_Names (fold record_step rs z) = zs_Names z @ map (\<lambda>e. Normalize (rre_Name e)) rs"
  by (induction rs arbitrary: z) (simp_all add: record_step_def mkZone_def Let_def)

lemma record_step_Z:
  "zs_Z (record_step e z) k = (if Normalize (rre_Name e) = k then Some (mkZone e) else zs_Z z k)"
  by (simp add: record_step_def mkZone_def Let_def)

lemma fold_record_step_Z:
  "zs_Z (fold record_step rs z) k =
     (case find (\<lambda>e. Normalize (rre_Name e) = k) (rev rs) of
        None \<Rightarrow> zs_Z z k
      | Some e \<Rightarrow> Some (mkZone e))"
proof (induction rs arbitrary: z)
  case Nil
  show ?case by simp
next
  case (Cons e rs)
  have "zs_Z (fold record_step (e # rs) z) k = zs_Z (fold record_step rs (record_step e z)) k"
    by simp
  also have "\<dots> = (case find (\<lambda>e. Normalize (rre_Name e) = k) (rev rs) of
        None \<Rightarrow> zs_Z (record_step e z) k
      | Some e \<Rightarrow> Some (mkZone e))"
    by (rule Cons.IH)
  finally show ?case
    by (simp add: find_app record_step_Z split: option.splits)
qed

lemma buildZones_Names:
  "zs_Names (buildZones rs) = map (\<lambda>e. Normalize (rre_Name e)) rs"
  by (simp add: buildZones_def fold_record_step_Names)

lemma buildZones_Z:
  "zs_Z (buildZones rs) k =
     map_option mkZone (find (\<lambda>e. Normalize (rre_Name e) = k) (rev rs))"
  by (simp add: buildZones_def fold_record_step_Z split: option.splits)

lemma buildZones_dom:
  "dom (zs_Z (buildZones rs)) = (\<lambda>e. Normalize (rre_Name e)) ` set rs"
proof -
  have "zs_Z (buildZones rs) k \<noteq> None \<longleftrightarrow> k \<in> (\<lambda>e. Normalize (rre_Name e)) ` set rs" for k
    by (auto simp: buildZones_Z find_None_iff)
  then show ?thesis
    by (auto simp: dom_def)
qed

lemma buildZones_last:
  "\<forall>e'\<in>set post. Normalize (rre_Name e') \<noteq> Normalize (rre_Name e) \<Longrightarrow>
     zs_Z (buildZones (pre @ e # post)) (Normalize (rre_Name e)) = Some (mkZone e)"
proof -
  assume "\<forall>e'\<in>set post. Normalize (rre_Name e') \<noteq> Normalize (rre_Name e)"
  then have "find (\<lambda>x. Normalize (rre_Name x) = Normalize (rre_Name e)) (rev (pre @ e # post)) = Some e"
    by (intro find_rev_last) simp_all
  then show ?thesis
    by (simp only: buildZones_Z option.map)
qed

lemma buildZones_SomeD:
  "zs_Z (buildZones rs) k = Some z \<Longrightarrow>
     \<exists>pre e post. rs = pre @ e # post \<and> Normalize (rre_Name e) = k \<and> z = mkZone e
       \<and> (\<forall>e'\<in>set post. Normalize (rre_Name e') \<noteq> k)"
proof -
  assume "zs_Z (buildZones rs) k = Some z"
  then obtain e where f: "find (\<lambda>e. Normalize (rre_Name e) = k) (rev rs) = Some e" and z: "z = mkZone e"
    by (auto simp: buildZones_Z)
  from find_rev_SomeD [OF f] z show ?thesis by blast
qed

lemma set_step_same:
  "rr_Name r = n \<Longrightarrow> set_step r cz n = Some (buildZones (rr_Records r))"
  by (simp add: set_step_def)

lemma set_step_other:
  "rr_Name r \<noteq> n \<Longrightarrow> set_step r cz n = cz n"
  by (simp add: set_step_def)

lemma fold_set_step:
  "fold set_step rs cz n =
     (case find (\<lambda>r. rr_Name r = n) (rev rs) of
        None \<Rightarrow> cz n
      | Some r \<Rightarrow> Some (buildZones (rr_Records r)))"
proof (induction rs arbitrary: cz)
  case Nil
  show ?case by simp
next
  case (Cons r rs)
  have "fold set_step (r # rs) cz n = fold set_step rs (set_step r cz) n"
    by simp
  also have "\<dots> = (case find (\<lambda>r. rr_Name r = n) (rev rs) of
        None \<Rightarrow> set_step r cz n
      | Some r \<Rightarrow> Some (buildZones (rr_Records r)))"
    by (rule Cons.IH)
  finally have eq: "fold set_step (r # rs) cz n =
      (case find (\<lambda>r. rr_Name r = n) (rev rs) of
        None \<Rightarrow> set_step r cz n
      | Some r \<Rightarrow> Some (buildZones (rr_Records r)))" .
  show ?case
  proof (cases "rr_Name r = n")
    case True
    then show ?thesis
      unfolding eq by (simp add: find_app set_step_same split: option.splits)
  next
    case False
    then show ?thesis
      unfolding eq by (simp add: find_app set_step_other split: option.splits)
  qed
qed

lemma buildClientZones_eq:
  "buildClientZones rs n =
     map_option (\<lambda>r. buildZones (rr_Records r)) (find (\<lambda>r. rr_Name r = n) (rev rs))"
  by (simp add: buildClientZones_def fold_set_step split: option.splits)

lemma loadConfig_ACLs:
  "v_ClientACLs (fst (loadConfig pc w v)) = map (aclOf pc) (rawClients w v)"
  by (simp add: loadConfig_def buildACLs_eq rawClients_def split: prod.splits)

lemma loadConfig_Zones:
  "v_ClientZones (fst (loadConfig pc w v)) = buildClientZones (rawRecords w v)"
  by (simp add: loadConfig_def buildACLs_eq rawClients_def rawRecords_def split: prod.splits)

lemma loadConfig_log:
  "snd (loadConfig pc w v) =
     logError (snd (fetchClients w v))
     @ logError (snd (fetchRecords w v (snd (fetchClients w v))))
     @ concat (map (warningsOf pc) (rawClients w v))"
  by (simp add: loadConfig_def buildACLs_eq rawClients_def split: prod.splits)

lemma loaded_zones:
  "v_ClientZones (fst (loadConfig pc w v)) g = Some zones \<Longrightarrow>
     \<exists>before r after. rawRecords w v = before @ r # after \<and> rr_Name r = g
        \<and> (\<forall>r'\<in>set after. rr_Name r' \<noteq> g) \<and> zones = buildZones (rr_Records r)"
proof -
  assume "v_ClientZones (fst (loadConfig pc w v)) g = Some zones"
  then obtain r where f: "find (\<lambda>r. rr_Name r = g) (rev (rawRecords w v)) = Some r"
    and z: "zones = buildZones (rr_Records r)"
    by (auto simp: loadConfig_Zones buildClientZones_eq)
  from find_rev_SomeD [OF f] z show ?thesis by blast
qed

lemma match_aclOf:
  "match contains (map (aclOf pc) gs) x =
     map_option rca_Name (find (\<lambda>g. raw_contains pc contains g x) gs)"
  by (induction gs) (simp_all add: aclOf_def raw_contains_def list_ex_map_filter)

lemma match_loaded:
  "match contains (v_ClientACLs (fst (loadConfig pc w v))) x =
     map_option rca_Name (find (\<lambda>g. raw_contains pc contains g x) (rawClients w v))"
  by (simp add: loadConfig_ACLs match_aclOf)

subsection \<open>The sample configuration, evaluated\<close>

lemma rawClients_good: "rawClients good_sources initial_views = sample_clients"
  by (simp add: rawClients_def fetchClients_def good_sources_def initial_views_def)

lemma rawRecords_good: "rawRecords good_sources initial_views = sample_records"
  by (simp add: rawRecords_def fetchRecords_def good_sources_def initial_views_def)

lemma norm_host: "Normalize ''host.example.com'' = ''host.example.com.''"
  by code_simp

lemma norm_dup1: "Normalize ''dup.example.com'' = ''dup.example.com.''"
  by code_simp

lemma norm_dup2: "Normalize ''DUP.Example.com.'' = ''dup.example.com.''"
  by code_simp

lemma norm_note: "Normalize ''note.example.com'' = ''note.example.com.''"
  by code_simp

lemma norm_srv: "Normalize ''srv.example.com'' = ''srv.example.com.''"
  by code_simp

lemmas sample_entries =
  entry_host_def entry_dup1_def entry_dup2_def entry_txt_def entry_srv_def

lemmas sample_norms = norm_host norm_dup1 norm_dup2 norm_note norm_srv

lemma sample_internal_names:
  "map (\<lambda>e. Normalize (rre_Name e)) (rr_Records sample_internal_records) =
     [''host.example.com.'', ''dup.example.com.'', ''dup.example.com.'',
      ''note.example.com.'', ''srv.example.com.'']"
  by (simp add: sample_internal_records_def sample_entries sample_norms)

lemma serving_internal:
  "v_ClientZones (fst (loadConfig ipv4_cidr good_sources initial_views)) ''internal'' =
     Some (buildZones (rr_Records sample_internal_records))"
  by (simp add: loadConfig_Zones buildClientZones_eq rawRecords_good sample_records_def
      sample_internal_records_def sample_external_records_def)

lemma sample_set_named_internal:
  "r \<in> set sample_records \<Longrightarrow> rr_Name r = ''internal'' \<Longrightarrow> r = sample_internal_records"
  by (auto simp: sample_records_def sample_internal_records_def sample_external_records_def)

section \<open>Record sets\<close>

text \<open>
  Claim C5. Last write wins per name. Every record set of the state that \<^verbatim>\<open>loadConfig\<close>
  leaves comes from a raw record set of that name (the last one, when the name is declared
  more than once); its map \<^verbatim>\<open>Z\<close> has one entry for each normalized name of the raw
  entries and for no other key; and when several raw entries have the same normalized name,
  the entry stored under it is built from the one that comes last in the raw input.
\<close>

theorem last_write_wins:
  assumes "v_ClientZones (fst (loadConfig pc w v)) g = Some zones"
  shows "\<exists>before r after. rawRecords w v = before @ r # after \<and> rr_Name r = g
           \<and> (\<forall>r'\<in>set after. rr_Name r' \<noteq> g)
           \<and> dom (zs_Z zones) = (\<lambda>e. Normalize (rre_Name e)) ` set (rr_Records r)
           \<and> (\<forall>pre e post. rr_Records r = pre @ e # post
                 \<and> (\<forall>e'\<in>set post. Normalize (rre_Name e') \<noteq> Normalize (rre_Name e))
               \<longrightarrow> zs_Z zones (Normalize (rre_Name e)) = Some (mkZone e))"
proof -
  from loaded_zones [OF assms] obtain before r after
    where raw: "rawRecords w v = before @ r # after" and g: "rr_Name r = g"
      and later: "\<forall>r'\<in>set after. rr_Name r' \<noteq> g" and z: "zones = buildZones (rr_Records r)"
    by blast
  have d: "dom (zs_Z zones) = (\<lambda>e. Normalize (rre_Name e)) ` set (rr_Records r)"
    by (simp add: z buildZones_dom)
  have l: "\<forall>pre e post. rr_Records r = pre @ e # post
                 \<and> (\<forall>e'\<in>set post. Normalize (rre_Name e') \<noteq> Normalize (rre_Name e))
               \<longrightarrow> zs_Z zones (Normalize (rre_Name e)) = Some (mkZone e)"
    by (simp add: z buildZones_last)
  from raw g later d l show ?thesis by blast
qed

theorem last_write_wins_witness:
  "v_ClientZones (fst (loadConfig ipv4_cidr good_sources initial_views)) ''internal'' =
     Some (buildZones (rr_Records sample_internal_records))
   \<and> Normalize (rre_Name entry_dup1) = Normalize (rre_Name entry_dup2)
   \<and> zs_Z (buildZones (rr_Records sample_internal_records)) ''dup.example.com.'' = Some (mkZone entry_dup2)
   \<and> z_TTL (mkZone entry_dup2) = 120"
proof -
  let ?zones = "buildZones (rr_Records sample_internal_records)"
  from last_write_wins [OF serving_internal] obtain before r after
    where raw: "rawRecords good_sources initial_views = before @ r # after"
      and g: "rr_Name r = ''internal''"
      and l: "\<forall>pre e post. rr_Records r = pre @ e # post
                 \<and> (\<forall>e'\<in>set post. Normalize (rre_Name e') \<noteq> Normalize (rre_Name e))
               \<longrightarrow> zs_Z ?zones (Normalize (rre_Name e)) = Some (mkZone e)"
    by (elim exE conjE)
  have "r \<in> set (rawRecords good_sources initial_views)"
    by (simp add: raw)
  then have "r \<in> set sample_records"
    by (simp only: rawRecords_good)
  then have r: "r = sample_internal_records"
    using g by (rule sample_set_named_internal)
  have n1: "Normalize (rre_Name entry_dup1) = ''dup.example.com.''"
    by (simp add: sample_entries sample_norms)
  have n2: "Normalize (rre_Name entry_dup2) = ''dup.example.com.''"
    by (simp add: sample_entries sample_norms)
  have n3: "Normalize (rre_Name entry_txt) = ''note.example.com.''"
    by (simp add: sample_entries sample_norms)
  have n4: "Normalize (rre_Name entry_srv) = ''srv.example.com.''"
    by (simp add: sample_entries sample_norms)
  have split: "rr_Records r = [entry_host, entry_dup1] @ entry_dup2 # [entry_txt, entry_srv]"
    by (simp add: r sample_internal_records_def)
  have after: "\<forall>e'\<in>set [entry_txt, entry_srv]. Normalize (rre_Name e') \<noteq> Normalize (rre_Name entry_dup2)"
    by (simp add: n2 n3 n4)
  have "zs_Z ?zones (Normalize (rre_Name entry_dup2)) = Some (mkZone entry_dup2)"
    by (rule l [rule_format, OF conjI, OF split after])
  then have "zs_Z ?zones ''dup.example.com.'' = Some (mkZone entry_dup2)"
    by (simp only: n2)
  moreover have "z_TTL (mkZone entry_dup2) = 120"
    by (simp add: mkZone_def entry_dup2_def)
  ultimately show ?thesis
    using serving_internal n1 n2 by simp
qed

text \<open>
  Claim C9. The stored value is the normalization of the raw value whatever the record's
  type: every entry of a loaded record set is built from a raw entry, its value is
  \<open>Normalize\<close> of that raw entry's value and its type is whatever the type string maps
  to. The stored value is therefore lower-case and ends in the separator, so it differs from
  a raw text that has an upper-case letter or no trailing separator, for a TXT record too.
\<close>

theorem value_normalized_for_every_type:
  assumes "v_ClientZones (fst (loadConfig pc w v)) g = Some zones"
    and "zs_Z zones k = Some z"
  shows "\<exists>r\<in>set (rawRecords w v). \<exists>e\<in>set (rr_Records r).
           rr_Name r = g
           \<and> k = Normalize (rre_Name e)
           \<and> z_Type z = rrtype_of (rre_Type e)
           \<and> z_Value z = Normalize (rre_Value e)
           \<and> z_Value z = ToLower (stripDot (rre_Value e)) @ ''.''"
proof -
  from loaded_zones [OF assms(1)] obtain before r after
    where raw: "rawRecords w v = before @ r # after" and g: "rr_Name r = g"
      and z: "zones = buildZones (rr_Records r)"
    by blast
  from assms(2) z have "zs_Z (buildZones (rr_Records r)) k = Some z"
    by simp
  from buildZones_SomeD [OF this] obtain pre e post
    where es: "rr_Records r = pre @ e # post" and k: "Normalize (rre_Name e) = k" and ze: "z = mkZone e"
    by blast
  have "r \<in> set (rawRecords w v)"
    by (simp add: raw)
  moreover have "e \<in> set (rr_Records r)"
    by (simp add: es)
  moreover have "z_Type z = rrtype_of (rre_Type e)" "z_Value z = Normalize (rre_Value e)"
    by (simp_all add: ze mkZone_def)
  moreover have "Normalize (rre_Value e) = ToLower (stripDot (rre_Value e)) @ ''.''"
    by (rule Normalize_stripDot)
  ultimately show ?thesis
    using k [symmetric] g by (intro bexI [of _ r] bexI [of _ e] conjI) simp_all
qed

theorem value_normalized_for_every_type_witness:
  "v_ClientZones (fst (loadConfig ipv4_cidr good_sources initial_views)) ''internal'' =
     Some (buildZones (rr_Records sample_internal_records))
   \<and> zs_Z (buildZones (rr_Records sample_internal_records)) ''note.example.com.'' =
       Some (mkZone entry_txt)
   \<and> rre_Type entry_txt = ''TXT''
   \<and> rre_Value entry_txt = ''Hello World''
   \<and> z_Value (mkZone entry_txt) = ''hello world.''"
proof -
  let ?zones = "buildZones (rr_Records sample_internal_records)"
  have "zs_Z (buildZones ([entry_host, entry_dup1, entry_dup2] @ entry_txt # [entry_srv]))
          (Normalize (rre_Name entry_txt)) = Some (mkZone entry_txt)"
    by (rule buildZones_last) (simp add: sample_entries sample_norms)
  then have stored: "zs_Z ?zones ''note.example.com.'' = Some (mkZone entry_txt)"
    by (simp add: sample_internal_records_def entry_txt_def norm_note)
  from value_normalized_for_every_type [OF serving_internal stored] obtain r e
    where r: "r \<in> set (rawRecords good_sources initial_views)" and e: "e \<in> set (rr_Records r)"
      and g: "rr_Name r = ''internal''" and k: "''note.example.com.'' = Normalize (rre_Name e)"
      and val: "z_Value (mkZone entry_txt) = ToLower (stripDot (rre_Value e)) @ ''.''"
    by (elim bexE conjE)
  from r have "r \<in> set sample_records"
    by (simp only: rawRecords_good)
  then have "r = sample_internal_records"
    using g by (rule sample_set_named_internal)
  with e have "e \<in> set [entry_host, entry_dup1, entry_dup2, entry_txt, entry_srv]"
    by (simp add: sample_internal_records_def)
  with k have "e = entry_txt"
    by (auto simp: sample_entries sample_norms)
  with val have "z_Value (mkZone entry_txt) = ToLower (stripDot ''Hello World'') @ ''.''"
    by (simp add: entry_txt_def)
  also have "\<dots> = ''hello world.''"
    by code_simp
  finally show ?thesis
    using serving_internal stored by (simp add: entry_txt_def)
qed

text \<open>
  Claim C10. The name sequence \<^verbatim>\<open>Names\<close> of a loaded record set has one element for each
  raw entry, in input order, duplicates included: it is the list of the normalized names of
  the raw entries. The keys of \<^verbatim>\<open>Z\<close> are the elements of \<^verbatim>\<open>Names\<close>, so \<^verbatim>\<open>Names\<close> is
  never shorter than the number of keys, and it is longer as soon as the raw input repeats
  a normalized name.
\<close>

theorem names_one_per_raw_entry:
  assumes "v_ClientZones (fst (loadConfig pc w v)) g = Some zones"
  shows "\<exists>r\<in>set (rawRecords w v). rr_Name r = g
           \<and> zs_Names zones = map (\<lambda>e. Normalize (rre_Name e)) (rr_Records r)
           \<and> length (zs_Names zones) = length (rr_Records r)
           \<and> dom (zs_Z zones) = set (zs_Names zones)
           \<and> card (dom (zs_Z zones)) \<le> length (zs_Names zones)
           \<and> (\<not> distinct (map (\<lambda>e. Normalize (rre_Name e)) (rr_Records r))
                \<longrightarrow> card (dom (zs_Z zones)) < length (zs_Names zones))"
proof -
  from loaded_zones [OF assms] obtain before r after
    where raw: "rawRecords w v = before @ r # after" and g: "rr_Name r = g"
      and z: "zones = buildZones (rr_Records r)"
    by blast
  let ?ns = "map (\<lambda>e. Normalize (rre_Name e)) (rr_Records r)"
  have names: "zs_Names zones = ?ns"
    by (simp add: z buildZones_Names)
  have d: "dom (zs_Z zones) = set (zs_Names zones)"
    by (simp add: z buildZones_dom buildZones_Names)
  have le: "card (dom (zs_Z zones)) \<le> length (zs_Names zones)"
    unfolding d by (rule card_length)
  have lt: "card (dom (zs_Z zones)) < length (zs_Names zones)" if "\<not> distinct ?ns"
  proof -
    from that have "card (set ?ns) \<noteq> length ?ns"
      using card_distinct by blast
    moreover have "card (set ?ns) \<le> length ?ns"
      by (rule card_length)
    ultimately show ?thesis
      unfolding d names by linarith
  qed
  have "r \<in> set (rawRecords w v)"
    by (simp add: raw)
  with g names d le lt show ?thesis
    by auto
qed

theorem names_one_per_raw_entry_witness:
  "v_ClientZones (fst (loadConfig ipv4_cidr good_sources initial_views)) ''internal'' =
     Some (buildZones (rr_Records sample_internal_records))
   \<and> zs_Names (buildZones (rr_Records sample_internal_records)) =
       [''host.example.com.'', ''dup.example.com.'', ''dup.example.com.'',
        ''note.example.com.'', ''srv.example.com.'']
   \<and> card (dom (zs_Z (buildZones (rr_Records sample_internal_records)))) < 5"
proof -
  let ?zones = "buildZones (rr_Records sample_internal_records)"
  from names_one_per_raw_entry [OF serving_internal] obtain r
    where r: "r \<in> set (rawRecords good_sources initial_views)" and g: "rr_Name r = ''internal''"
      and names: "zs_Names ?zones = map (\<lambda>e. Normalize (rre_Name e)) (rr_Records r)"
      and lt: "\<not> distinct (map (\<lambda>e. Normalize (rre_Name e)) (rr_Records r))
                \<longrightarrow> card (dom (zs_Z ?zones)) < length (zs_Names ?zones)"
    by blast
  from r g have "r = sample_internal_records"
    by (simp add: rawRecords_good sample_set_named_internal)
  with names lt show ?thesis
    using serving_internal by (simp add: sample_internal_names)
qed


subsection \<open>The sample groups, evaluated\<close>

lemma cidr_10_8: "ipv4_cidr ''10.0.0.0/8'' = Some (0x0A000000, 0xFF000000)"
  by (simp add: ipv4_cidr_def parse_ipv4_def octet_def dtoi_def mask_eq_exp_minus_1)

lemma cidr_10_33: "ipv4_cidr ''10.0.0.0/33'' = None"
  by (simp add: ipv4_cidr_def parse_ipv4_def octet_def dtoi_def)

lemma cidr_words: "ipv4_cidr ''ten.slash.eight'' = None"
  by (simp add: ipv4_cidr_def)

lemma cidr_0_0: "ipv4_cidr ''0.0.0.0/0'' = Some (0, 0)"
  by (simp add: ipv4_cidr_def parse_ipv4_def octet_def dtoi_def mask_eq_exp_minus_1)

lemma ip_10_5_5_5: "parse_ipv4 ''10.5.5.5'' = Some 0x0A050505"
  by (simp add: parse_ipv4_def octet_def dtoi_def)

lemma ip_198_51_100_1: "parse_ipv4 ''198.51.100.1'' = Some 0xC6336401"
  by (simp add: parse_ipv4_def octet_def dtoi_def)

lemmas sample_cidrs = cidr_10_8 cidr_10_33 cidr_words cidr_0_0

lemma internal_has_10_5_5_5: "raw_contains ipv4_cidr ipv4_contains sample_internal 0x0A050505"
  by (simp add: raw_contains_def sample_internal_def sample_cidrs ipv4_contains_def)

lemma external_has_10_5_5_5: "raw_contains ipv4_cidr ipv4_contains sample_external 0x0A050505"
  by (simp add: raw_contains_def sample_external_def sample_cidrs ipv4_contains_def)

lemma internal_lacks_198: "\<not> raw_contains ipv4_cidr ipv4_contains sample_internal 0xC6336401"
  by (simp add: raw_contains_def sample_internal_def sample_cidrs ipv4_contains_def)

lemma broken_lacks: "\<not> raw_contains ipv4_cidr ipv4_contains sample_broken x"
  by (simp add: raw_contains_def sample_broken_def sample_cidrs)

lemma rawClients_partial: "rawClients partial_sources initial_views = [sample_broken, sample_internal]"
  by (simp add: rawClients_def fetchClients_def partial_sources_def initial_views_def)

lemma rawClients_clean:
  "rawClients clean_sources initial_views =
     [sample_internal\<lparr>rca_CIDRPrefixes := [''10.0.0.0/8'']\<rparr>, sample_external]"
  by (simp add: rawClients_def fetchClients_def clean_sources_def initial_views_def)

section \<open>Client groups\<close>

text \<open>
  Claim C3. On the groups that \<^verbatim>\<open>loadConfig\<close> builds, the matcher returns the name of the
  first raw group, in declared order, one of whose prefix strings parses to a network
  containing the address. Hence: when \<open>g1\<close> is the first declared group containing the
  address and a later group \<open>g2\<close> contains it too, the result is the name of \<open>g1\<close>; a
  group whose prefixes are all malformed contains no address and the result is the same
  as if that group were not declared; and when no group contains the address the result is
  none.
\<close>

theorem match_first_declared_group:
  "match contains (v_ClientACLs (fst (loadConfig pc w v))) x =
     map_option rca_Name (find (\<lambda>g. raw_contains pc contains g x) (rawClients w v))
   \<and> (rawClients w v = pre @ g1 # mid @ g2 # post
        \<and> (\<forall>g\<in>set pre. \<not> raw_contains pc contains g x)
        \<and> raw_contains pc contains g1 x \<and> raw_contains pc contains g2 x
      \<longrightarrow> match contains (v_ClientACLs (fst (loadConfig pc w v))) x = Some (rca_Name g1))
   \<and> (rawClients w v = before @ g0 # after \<and> (\<forall>p\<in>set (rca_CIDRPrefixes g0). pc p = None)
      \<longrightarrow> acl_CIDRNets (v_ClientACLs (fst (loadConfig pc w v)) ! length before) = []
          \<and> \<not> raw_contains pc contains g0 x
          \<and> match contains (v_ClientACLs (fst (loadConfig pc w v))) x =
              match contains (fst (buildACLs pc (before @ after) [])) x)
   \<and> ((\<forall>g\<in>set (rawClients w v). \<not> raw_contains pc contains g x)
      \<longrightarrow> match contains (v_ClientACLs (fst (loadConfig pc w v))) x = None)"
proof (intro conjI impI)
  show "match contains (v_ClientACLs (fst (loadConfig pc w v))) x =
     map_option rca_Name (find (\<lambda>g. raw_contains pc contains g x) (rawClients w v))"
    by (rule match_loaded)
next
  assume a: "rawClients w v = pre @ g1 # mid @ g2 # post
        \<and> (\<forall>g\<in>set pre. \<not> raw_contains pc contains g x)
        \<and> raw_contains pc contains g1 x \<and> raw_contains pc contains g2 x"
  then have "find (\<lambda>g. raw_contains pc contains g x) pre = None"
    by (simp add: find_None_iff)
  with a show "match contains (v_ClientACLs (fst (loadConfig pc w v))) x = Some (rca_Name g1)"
    by (simp add: match_loaded find_app)
next
  assume a: "rawClients w v = before @ g0 # after \<and> (\<forall>p\<in>set (rca_CIDRPrefixes g0). pc p = None)"
  then have none: "List.map_filter pc (rca_CIDRPrefixes g0) = []"
    by (simp add: List.map_filter_def filter_empty_conv)
  have "v_ClientACLs (fst (loadConfig pc w v)) ! length before = aclOf pc g0"
    using a by (simp add: loadConfig_ACLs nth_append)
  with none show "acl_CIDRNets (v_ClientACLs (fst (loadConfig pc w v)) ! length before) = []"
    by (simp add: aclOf_def)
  from a show no: "\<not> raw_contains pc contains g0 x"
    by (simp add: raw_contains_def list_ex_iff)
  have "find (\<lambda>g. raw_contains pc contains g x) (before @ g0 # after) =
        find (\<lambda>g. raw_contains pc contains g x) (before @ after)"
    using no by (simp add: find_app split: option.splits)
  moreover have "match contains (fst (buildACLs pc (before @ after) [])) x =
      map_option rca_Name (find (\<lambda>g. raw_contains pc contains g x) (before @ after))"
    by (simp only: buildACLs_eq fst_conv match_aclOf)
  ultimately show "match contains (v_ClientACLs (fst (loadConfig pc w v))) x =
              match contains (fst (buildACLs pc (before @ after) [])) x"
    using a by (simp only: match_loaded)
next
  assume "\<forall>g\<in>set (rawClients w v). \<not> raw_contains pc contains g x"
  then have "find (\<lambda>g. raw_contains pc contains g x) (rawClients w v) = None"
    by (simp add: find_None_iff)
  then show "match contains (v_ClientACLs (fst (loadConfig pc w v))) x = None"
    by (simp add: match_loaded)
qed

theorem match_first_declared_group_witness:
  "(rawClients good_sources initial_views = [] @ sample_internal # [] @ sample_external # []
      \<and> raw_contains ipv4_cidr ipv4_contains sample_internal 0x0A050505
      \<and> raw_contains ipv4_cidr ipv4_contains sample_external 0x0A050505
      \<and> match ipv4_contains (v_ClientACLs (fst (loadConfig ipv4_cidr good_sources initial_views)))
            0x0A050505 = Some ''internal'')
   \<and> (rawClients partial_sources initial_views = [] @ sample_broken # [sample_internal]
      \<and> rca_CIDRPrefixes sample_broken = [''10.0.0.0/33'', ''ten.slash.eight'']
      \<and> ipv4_cidr ''10.0.0.0/33'' = None \<and> ipv4_cidr ''ten.slash.eight'' = None
      \<and> match ipv4_contains (v_ClientACLs (fst (loadConfig ipv4_cidr partial_sources initial_views)))
            0x0A050505 = Some ''internal'')
   \<and> (\<not> raw_contains ipv4_cidr ipv4_contains sample_broken (0xC6336401 :: 32 word)
      \<and> \<not> raw_contains ipv4_cidr ipv4_contains sample_internal (0xC6336401 :: 32 word)
      \<and> match ipv4_contains (v_ClientACLs (fst (loadConfig ipv4_cidr partial_sources initial_views)))
            0xC6336401 = None)"
proof -
  have g: "rawClients good_sources initial_views = [] @ sample_internal # [] @ sample_external # []"
    by (simp add: rawClients_good sample_clients_def)
  have first: "\<forall>g\<in>set []. \<not> raw_contains ipv4_cidr ipv4_contains g (0x0A050505 :: 32 word)"
    by simp
  have one: "match ipv4_contains (v_ClientACLs (fst (loadConfig ipv4_cidr good_sources initial_views)))
            0x0A050505 = Some (rca_Name sample_internal)"
    using match_first_declared_group
      [of ipv4_contains ipv4_cidr good_sources initial_views "0x0A050505"
          "[]" sample_internal "[]" sample_external "[]"]
      g first internal_has_10_5_5_5 external_has_10_5_5_5
    by blast
  have p: "rawClients partial_sources initial_views = [] @ sample_broken # [sample_internal]"
    by (simp add: rawClients_partial)
  have bad: "\<forall>p\<in>set (rca_CIDRPrefixes sample_broken). ipv4_cidr p = None"
    by (simp add: sample_broken_def sample_cidrs)
  have "match ipv4_contains (v_ClientACLs (fst (loadConfig ipv4_cidr partial_sources initial_views)))
            0x0A050505 = match ipv4_contains (fst (buildACLs ipv4_cidr ([] @ [sample_internal]) [])) 0x0A050505"
    using match_first_declared_group
      [of ipv4_contains ipv4_cidr partial_sources initial_views "0x0A050505"
          _ _ _ _ _ "[]" sample_broken "[sample_internal]"]
      p bad
    by blast
  also have "\<dots> = Some ''internal''"
    by (simp add: buildACLs_eq aclOf_def sample_internal_def sample_cidrs ipv4_contains_def)
  finally have two: "match ipv4_contains
      (v_ClientACLs (fst (loadConfig ipv4_cidr partial_sources initial_views))) 0x0A050505 = Some ''internal''" .
  have nobody: "\<forall>g\<in>set (rawClients partial_sources initial_views).
          \<not> raw_contains ipv4_cidr ipv4_contains g (0xC6336401 :: 32 word)"
    by (simp add: rawClients_partial broken_lacks internal_lacks_198)
  have three: "match ipv4_contains (v_ClientACLs (fst (loadConfig ipv4_cidr partial_sources initial_views)))
            0xC6336401 = None"
    using match_first_declared_group
      [of ipv4_contains ipv4_cidr partial_sources initial_views "0xC6336401"]
      nobody
    by blast
  have name: "rca_Name sample_internal = ''internal''"
    by (simp add: sample_internal_def)
  have prefixes: "rca_CIDRPrefixes sample_broken = [''10.0.0.0/33'', ''ten.slash.eight'']"
    by (simp add: sample_broken_def)
  show ?thesis
    using g internal_has_10_5_5_5 external_has_10_5_5_5 one p prefixes cidr_10_33 cidr_words two
      broken_lacks [of "0xC6336401"] internal_lacks_198 three
    unfolding name by (intro conjI)
qed


text \<open>
  Claim C6. A prefix string that does not parse is dropped alone. With \<open>bad\<close> malformed
  in the prefix list of the group \<open>g\<close>, \<^verbatim>\<open>loadConfig\<close> builds the very groups it builds
  from the same input without \<open>bad\<close>: the other prefixes of \<open>g\<close> and all other groups
  are loaded, the group \<open>g\<close> itself is created, every address matches the same group,
  and a warning naming the group and the prefix is logged.
\<close>

theorem malformed_prefix_dropped:
  assumes "pc bad = None"
    and "rawClients w v = pre @ g # post"
    and "rca_CIDRPrefixes g = ps @ bad # qs"
    and "rawClients w' v' = pre @ g\<lparr>rca_CIDRPrefixes := ps @ qs\<rparr> # post"
  shows "v_ClientACLs (fst (loadConfig pc w v)) = v_ClientACLs (fst (loadConfig pc w' v'))
     \<and> map acl_Name (v_ClientACLs (fst (loadConfig pc w v))) = map rca_Name (pre @ g # post)
     \<and> acl_CIDRNets (v_ClientACLs (fst (loadConfig pc w v)) ! length pre) =
         List.map_filter pc ps @ List.map_filter pc qs
     \<and> invalidCIDR (rca_Name g) bad \<in> set (snd (loadConfig pc w v))
     \<and> match contains (v_ClientACLs (fst (loadConfig pc w v))) x =
         match contains (v_ClientACLs (fst (loadConfig pc w' v'))) x"
proof -
  have nets: "List.map_filter pc (ps @ bad # qs) = List.map_filter pc ps @ List.map_filter pc qs"
    using assms(1) by (simp add: List.map_filter_def)
  have same: "aclOf pc (g\<lparr>rca_CIDRPrefixes := ps @ qs\<rparr>) = aclOf pc g"
    by (simp add: aclOf_def assms(3) nets) (simp add: List.map_filter_def)
  have eq: "v_ClientACLs (fst (loadConfig pc w v)) = v_ClientACLs (fst (loadConfig pc w' v'))"
    by (simp add: loadConfig_ACLs assms(2) assms(4) same)
  have names: "map acl_Name (v_ClientACLs (fst (loadConfig pc w v))) = map rca_Name (pre @ g # post)"
    by (simp add: loadConfig_ACLs assms(2) aclOf_def)
  have "v_ClientACLs (fst (loadConfig pc w v)) ! length pre = aclOf pc g"
    by (simp add: loadConfig_ACLs assms(2) nth_append)
  then have kept: "acl_CIDRNets (v_ClientACLs (fst (loadConfig pc w v)) ! length pre) =
         List.map_filter pc ps @ List.map_filter pc qs"
    by (simp add: aclOf_def assms(3) nets)
  have "invalidCIDR (rca_Name g) bad \<in> set (warningsOf pc g)"
    using assms(1) by (simp add: warningsOf_def assms(3))
  then have warned: "invalidCIDR (rca_Name g) bad \<in> set (snd (loadConfig pc w v))"
    by (simp add: loadConfig_log assms(2))
  from eq names kept warned show ?thesis
    by simp
qed

theorem malformed_prefix_dropped_witness:
  "ipv4_cidr ''10.0.0.0/33'' = None
   \<and> rawClients good_sources initial_views = [] @ sample_internal # [sample_external]
   \<and> rca_CIDRPrefixes sample_internal = [''10.0.0.0/8''] @ ''10.0.0.0/33'' # []
   \<and> rawClients clean_sources initial_views =
       [] @ sample_internal\<lparr>rca_CIDRPrefixes := [''10.0.0.0/8''] @ []\<rparr> # [sample_external]
   \<and> v_ClientACLs (fst (loadConfig ipv4_cidr good_sources initial_views)) =
       v_ClientACLs (fst (loadConfig ipv4_cidr clean_sources initial_views))
   \<and> map acl_Name (v_ClientACLs (fst (loadConfig ipv4_cidr good_sources initial_views))) =
       [''internal'', ''external'']
   \<and> LogWarning ''invalid CIDR address: internal (10.0.0.0/33)''
       \<in> set (snd (loadConfig ipv4_cidr good_sources initial_views))"
proof -
  have h2: "rawClients good_sources initial_views = [] @ sample_internal # [sample_external]"
    by (simp add: rawClients_good sample_clients_def)
  have h3: "rca_CIDRPrefixes sample_internal = [''10.0.0.0/8''] @ ''10.0.0.0/33'' # []"
    by (simp add: sample_internal_def)
  have h4: "rawClients clean_sources initial_views =
       [] @ sample_internal\<lparr>rca_CIDRPrefixes := [''10.0.0.0/8''] @ []\<rparr> # [sample_external]"
    by (simp add: rawClients_clean)
  have names: "map rca_Name ([] @ sample_internal # [sample_external]) = [''internal'', ''external'']"
    by (simp add: sample_internal_def sample_external_def)
  have line: "invalidCIDR (rca_Name sample_internal) ''10.0.0.0/33'' =
      LogWarning ''invalid CIDR address: internal (10.0.0.0/33)''"
    by (simp add: invalidCIDR_def sample_internal_def)
  note dropped = malformed_prefix_dropped
    [where pc = ipv4_cidr and bad = "''10.0.0.0/33''" and w = good_sources and v = initial_views
       and pre = "[]" and g = sample_internal and post = "[sample_external]"
       and ps = "[''10.0.0.0/8'']" and qs = "[]" and w' = clean_sources and v' = initial_views
       and contains = ipv4_contains and x = 0,
     OF cidr_10_33 h2 h3 h4]
  from dropped have same: "v_ClientACLs (fst (loadConfig ipv4_cidr good_sources initial_views)) =
       v_ClientACLs (fst (loadConfig ipv4_cidr clean_sources initial_views))"
    by (elim conjE)
  from dropped have created: "map acl_Name (v_ClientACLs (fst (loadConfig ipv4_cidr good_sources initial_views))) =
       map rca_Name ([] @ sample_internal # [sample_external])"
    by (elim conjE)
  from dropped have warned: "invalidCIDR (rca_Name sample_internal) ''10.0.0.0/33''
       \<in> set (snd (loadConfig ipv4_cidr good_sources initial_views))"
    by (elim conjE)
  show ?thesis
    using cidr_10_33 h2 h3 h4 same created [unfolded names] warned [unfolded line]
    by (intro conjI)
qed

section \<open>The query path\<close>

subsection \<open>The sample state, evaluated\<close>

lemma match_good_10:
  "match ipv4_contains (v_ClientACLs (fst (loadConfig ipv4_cidr good_sources initial_views)))
     0x0A050505 = Some ''internal''"
  by (simp add: match_loaded rawClients_good sample_clients_def internal_has_10_5_5_5)
    (simp add: sample_internal_def)

lemma match_partial_198:
  "match ipv4_contains (v_ClientACLs (fst (loadConfig ipv4_cidr partial_sources initial_views)))
     0xC6336401 = None"
  by (simp add: match_loaded rawClients_partial broken_lacks internal_lacks_198)

lemma rawClients_records_down: "rawClients records_down_sources initial_views = sample_clients"
  by (simp add: rawClients_def fetchClients_def records_down_sources_def initial_views_def)

lemma rawRecords_records_down: "rawRecords records_down_sources initial_views = []"
  by (simp add: rawRecords_def fetchRecords_def records_down_sources_def initial_views_def)

lemma match_records_down_10:
  "match ipv4_contains
     (v_ClientACLs (fst (loadConfig ipv4_cidr records_down_sources initial_views)))
     0x0A050505 = Some ''internal''"
  by (simp add: match_loaded rawClients_records_down sample_clients_def internal_has_10_5_5_5)
    (simp add: sample_internal_def)

lemma zones_records_down:
  "v_ClientZones (fst (loadConfig ipv4_cidr records_down_sources initial_views)) g = None"
  by (simp add: loadConfig_Zones rawRecords_records_down buildClientZones_def)

lemma norm_nope: "Normalize ''nope.example.com'' = ''nope.example.com.''"
  by code_simp

lemma stored_host:
  "zs_Z (buildZones (rr_Records sample_internal_records)) ''host.example.com.'' =
     Some (mkZone entry_host)"
proof -
  have "zs_Z (buildZones ([] @ entry_host # [entry_dup1, entry_dup2, entry_txt, entry_srv]))
          (Normalize (rre_Name entry_host)) = Some (mkZone entry_host)"
    by (rule buildZones_last) (simp add: sample_entries sample_norms)
  then show ?thesis
    by (simp add: sample_internal_records_def entry_host_def norm_host)
qed

lemma stored_srv:
  "zs_Z (buildZones (rr_Records sample_internal_records)) ''srv.example.com.'' =
     Some (mkZone entry_srv)"
proof -
  have "zs_Z (buildZones ([entry_host, entry_dup1, entry_dup2, entry_txt] @ entry_srv # []))
          (Normalize (rre_Name entry_srv)) = Some (mkZone entry_srv)"
    by (rule buildZones_last) simp
  then show ?thesis
    by (simp add: sample_internal_records_def entry_srv_def norm_srv)
qed

lemma absent_nope:
  "zs_Z (buildZones (rr_Records sample_internal_records)) ''nope.example.com.'' = None"
proof -
  have "''nope.example.com.'' \<notin> dom (zs_Z (buildZones (rr_Records sample_internal_records)))"
    unfolding buildZones_dom image_set sample_internal_names by simp
  then show ?thesis
    by (simp add: dom_def)
qed

lemma type_host: "z_Type (mkZone entry_host) = TypeA"
  by (simp add: mkZone_def entry_host_def rrtype_of_def ToUpper_def upper_char_def)

lemma ToUpper_SRV: "ToUpper ''SRV'' = ''SRV''"
  by code_simp

lemma type_srv: "z_Type (mkZone entry_srv) = TypeNone"
  by (simp add: mkZone_def entry_srv_def rrtype_of_def ToUpper_SRV TypeNone_def)

text \<open>
  Claim C4. The resolver declines when no group matches the address, when the matched
  group has no record set, when the normalized query name is not in the record set, and
  when the stored entry's type differs from the query type or is UNKNOWN. In all these
  cases the result is the one value \<open>Decline\<close>, which carries nothing that could tell the
  causes apart. For an address in no group of the loaded configuration every query is
  declined.
\<close>

theorem resolve_declines:
  "(match contains (v_ClientACLs s) a = None \<longrightarrow> resolve contains s a q t = Decline)
   \<and> (match contains (v_ClientACLs s) a = Some g \<and> v_ClientZones s g = None
        \<longrightarrow> resolve contains s a q t = Decline)
   \<and> (match contains (v_ClientACLs s) a = Some g \<and> v_ClientZones s g = Some rs
        \<and> zs_Z rs (Normalize q) = None
        \<longrightarrow> resolve contains s a q t = Decline)
   \<and> (match contains (v_ClientACLs s) a = Some g \<and> v_ClientZones s g = Some rs
        \<and> zs_Z rs (Normalize q) = Some e \<and> (z_Type e \<noteq> t \<or> z_Type e = TypeNone)
        \<longrightarrow> resolve contains s a q t = Decline)
   \<and> ((\<forall>g\<in>set (rawClients w v). \<not> raw_contains pc contains g a)
        \<longrightarrow> (\<forall>q' t'. resolve contains (fst (loadConfig pc w v)) a q' t' = Decline))"
proof (intro conjI impI allI)
  assume "\<forall>g\<in>set (rawClients w v). \<not> raw_contains pc contains g a"
  then have "find (\<lambda>g. raw_contains pc contains g a) (rawClients w v) = None"
    by (simp add: find_None_iff)
  then have "match contains (v_ClientACLs (fst (loadConfig pc w v))) a = None"
    by (simp add: match_loaded)
  then show "resolve contains (fst (loadConfig pc w v)) a q' t' = Decline" for q' t'
    by (simp add: resolve_def)
qed (auto simp: resolve_def)

lemma value_host: "z_Value (mkZone entry_host) = ''10.1.2.3.''"
proof -
  have "Normalize ''10.1.2.3'' = ''10.1.2.3.''"
    by code_simp
  then show ?thesis
    by (simp add: mkZone_def entry_host_def)
qed

lemma resolve_good_host:
  "resolve ipv4_contains (fst (loadConfig ipv4_cidr good_sources initial_views))
     0x0A050505 ''host.example.com'' TypeA = Answer 300 TypeA ''10.1.2.3.''"
proof -
  have "z_TTL (mkZone entry_host) = 300"
    by (simp add: mkZone_def entry_host_def)
  moreover have "TypeA \<noteq> TypeNone"
    by (simp add: TypeA_def TypeNone_def)
  ultimately show ?thesis
    by (simp add: resolve_def match_good_10 serving_internal norm_host stored_host type_host
        value_host)
qed

theorem resolve_declines_witness:
  "(match ipv4_contains (v_ClientACLs (fst (loadConfig ipv4_cidr partial_sources initial_views)))
        0xC6336401 = None
      \<and> resolve ipv4_contains (fst (loadConfig ipv4_cidr partial_sources initial_views))
           0xC6336401 ''host.example.com'' TypeA = Decline)
   \<and> (match ipv4_contains (v_ClientACLs (fst (loadConfig ipv4_cidr records_down_sources initial_views)))
        0x0A050505 = Some ''internal''
      \<and> v_ClientZones (fst (loadConfig ipv4_cidr records_down_sources initial_views)) ''internal'' = None
      \<and> resolve ipv4_contains (fst (loadConfig ipv4_cidr records_down_sources initial_views))
           0x0A050505 ''host.example.com'' TypeA = Decline)
   \<and> (zs_Z (buildZones (rr_Records sample_internal_records)) (Normalize ''nope.example.com'') = None
      \<and> resolve ipv4_contains (fst (loadConfig ipv4_cidr good_sources initial_views))
           0x0A050505 ''nope.example.com'' TypeA = Decline)
   \<and> (zs_Z (buildZones (rr_Records sample_internal_records)) (Normalize ''host.example.com'') =
        Some (mkZone entry_host)
      \<and> z_Type (mkZone entry_host) \<noteq> TypeAAAA
      \<and> resolve ipv4_contains (fst (loadConfig ipv4_cidr good_sources initial_views))
           0x0A050505 ''host.example.com'' TypeAAAA = Decline)
   \<and> (rawClients partial_sources initial_views = [sample_broken, sample_internal]
      \<and> \<not> raw_contains ipv4_cidr ipv4_contains sample_broken (0xC6336401 :: 32 word)
      \<and> \<not> raw_contains ipv4_cidr ipv4_contains sample_internal (0xC6336401 :: 32 word)
      \<and> resolve ipv4_contains (fst (loadConfig ipv4_cidr partial_sources initial_views))
           0xC6336401 ''note.example.com'' TypeTXT = Decline)"
proof -
  let ?good = "fst (loadConfig ipv4_cidr good_sources initial_views)"
  let ?partial = "fst (loadConfig ipv4_cidr partial_sources initial_views)"
  let ?down = "fst (loadConfig ipv4_cidr records_down_sources initial_views)"
  let ?zones = "buildZones (rr_Records sample_internal_records)"
  have one: "resolve ipv4_contains ?partial 0xC6336401 ''host.example.com'' TypeA = Decline"
    using resolve_declines
      [where contains = ipv4_contains and s = ?partial and a = "0xC6336401"
         and q = "''host.example.com''" and t = TypeA]
      match_partial_198
    by simp
  have two: "resolve ipv4_contains ?down 0x0A050505 ''host.example.com'' TypeA = Decline"
    using resolve_declines
      [where contains = ipv4_contains and s = ?down and a = "0x0A050505" and g = "''internal''"
         and q = "''host.example.com''" and t = TypeA]
      match_records_down_10 zones_records_down [of "''internal''"]
    by simp
  have nope: "zs_Z ?zones (Normalize ''nope.example.com'') = None"
    by (simp add: norm_nope absent_nope)
  have three: "resolve ipv4_contains ?good 0x0A050505 ''nope.example.com'' TypeA = Decline"
    using resolve_declines
      [where contains = ipv4_contains and s = ?good and a = "0x0A050505" and g = "''internal''"
         and rs = ?zones and q = "''nope.example.com''" and t = TypeA]
      match_good_10 serving_internal nope
    by simp
  have host: "zs_Z ?zones (Normalize ''host.example.com'') = Some (mkZone entry_host)"
    by (simp add: norm_host stored_host)
  have differs: "z_Type (mkZone entry_host) \<noteq> TypeAAAA"
    by (simp add: type_host TypeA_def TypeAAAA_def)
  have four: "resolve ipv4_contains ?good 0x0A050505 ''host.example.com'' TypeAAAA = Decline"
    using resolve_declines
      [where contains = ipv4_contains and s = ?good and a = "0x0A050505" and g = "''internal''"
         and rs = ?zones and q = "''host.example.com''" and t = TypeAAAA and e = "mkZone entry_host"]
      match_good_10 serving_internal host differs
    by simp
  have nobody: "\<forall>g\<in>set (rawClients partial_sources initial_views).
          \<not> raw_contains ipv4_cidr ipv4_contains g (0xC6336401 :: 32 word)"
    by (simp add: rawClients_partial broken_lacks internal_lacks_198)
  have five: "resolve ipv4_contains ?partial 0xC6336401 ''note.example.com'' TypeTXT = Decline"
    using resolve_declines
      [where contains = ipv4_contains and a = "0xC6336401" and pc = ipv4_cidr
         and w = partial_sources and v = initial_views]
      nobody
    by simp
  show ?thesis
    using match_partial_198 one match_records_down_10 zones_records_down [of "''internal''"] two
      nope three host differs four rawClients_partial broken_lacks [of "0xC6336401"]
      internal_lacks_198 five
    by (intro conjI)
qed

subsection \<open>Normalization and record types\<close>

lemma upper_char_dot: "upper_char c = CHR ''.'' \<longleftrightarrow> c = CHR ''.''"
  by (auto simp: char_eq_by_code of_char_upper)

lemma lower_char_dot: "lower_char c = CHR ''.'' \<longleftrightarrow> c = CHR ''.''"
  by (auto simp: char_eq_by_code of_char_lower)

lemma stripDot_map:
  "(\<And>c. f c = CHR ''.'' \<longleftrightarrow> c = CHR ''.'') \<Longrightarrow> stripDot (map f s) = map f (stripDot s)"
  by (cases "s = []") (simp_all add: stripDot_def last_map map_butlast)

lemma Normalize_ToUpper: "Normalize (ToUpper n) = Normalize n"
proof -
  have "stripDot (ToUpper n) = ToUpper (stripDot n)"
    unfolding ToUpper_def by (rule stripDot_map) (rule upper_char_dot)
  then show ?thesis
    by (simp add: Normalize_stripDot ToLower_ToUpper)
qed

lemma Normalize_ToLower: "Normalize (ToLower n) = Normalize n"
proof -
  have "stripDot (ToLower n) = ToLower (stripDot n)"
    unfolding ToLower_def by (rule stripDot_map) (rule lower_char_dot)
  then show ?thesis
    by (simp add: Normalize_stripDot ToLower_idem)
qed

lemma Normalize_Fqdn: "Normalize (Fqdn n) = Normalize n"
proof -
  have "stripDot (Fqdn n) = stripDot n"
    by (simp only: Fqdn_stripDot stripDot_snoc)
  then show ?thesis
    by (simp only: Normalize_stripDot)
qed

lemma stored_under_normalized_name:
  assumes "e \<in> set rs"
  shows "\<exists>z. zs_Z (buildZones rs) (Normalize (rre_Name e)) = Some z \<and> z_Name z = Normalize (rre_Name e)"
proof -
  from assms have "Normalize (rre_Name e) \<in> dom (zs_Z (buildZones rs))"
    by (simp add: buildZones_dom)
  then obtain z where z: "zs_Z (buildZones rs) (Normalize (rre_Name e)) = Some z"
    by (auto simp: dom_def)
  from buildZones_SomeD [OF z] obtain e'
    where "Normalize (rre_Name e') = Normalize (rre_Name e)" "z = mkZone e'"
    by blast
  then have "z_Name z = Normalize (rre_Name e)"
    by (simp add: mkZone_def)
  with z show ?thesis
    by simp
qed

text \<open>
  Claim C7. Normalization is idempotent, and it does not see letter case or the trailing
  separator: the upper-cased, the lower-cased and the fully qualified form of a name
  normalize like the name, and two names normalize alike exactly when they are variants of
  each other. Hence, in a loaded record set, looking up the normalization of any variant of a
  raw entry's name finds the entry stored under that entry's normalized name.
\<close>

theorem normalize_canonical:
  "Normalize (Normalize n) = Normalize n
   \<and> Normalize (ToUpper n) = Normalize n
   \<and> Normalize (ToLower n) = Normalize n
   \<and> Normalize (Fqdn n) = Normalize n
   \<and> (variant q n \<longleftrightarrow> Normalize q = Normalize n)
   \<and> (v_ClientZones (fst (loadConfig pc w v)) g = Some zones \<longrightarrow>
        (\<exists>r\<in>set (rawRecords w v). rr_Name r = g \<and>
           (\<forall>e\<in>set (rr_Records r). \<forall>q'. variant q' (rre_Name e) \<longrightarrow>
              (\<exists>z. zs_Z zones (Normalize q') = Some z \<and> z_Name z = Normalize (rre_Name e)))))"
proof (intro conjI impI)
  show "Normalize (Normalize n) = Normalize n"
    by (rule Normalize_idem)
  show "Normalize (ToUpper n) = Normalize n"
    by (rule Normalize_ToUpper)
  show "Normalize (ToLower n) = Normalize n"
    by (rule Normalize_ToLower)
  show "Normalize (Fqdn n) = Normalize n"
    by (rule Normalize_Fqdn)
  show "variant q n \<longleftrightarrow> Normalize q = Normalize n"
    by (simp add: Normalize_eq_iff)
next
  assume "v_ClientZones (fst (loadConfig pc w v)) g = Some zones"
  from loaded_zones [OF this] obtain before r after
    where raw: "rawRecords w v = before @ r # after" and g: "rr_Name r = g"
      and z: "zones = buildZones (rr_Records r)"
    by blast
  have "\<exists>z. zs_Z zones (Normalize q') = Some z \<and> z_Name z = Normalize (rre_Name e)"
    if "e \<in> set (rr_Records r)" and "variant q' (rre_Name e)" for e q'
  proof -
    from that(2) have "Normalize q' = Normalize (rre_Name e)"
      by (simp add: Normalize_eq_iff)
    with stored_under_normalized_name [OF that(1)] show ?thesis
      by (simp add: z)
  qed
  moreover have "r \<in> set (rawRecords w v)"
    by (simp add: raw)
  ultimately show "\<exists>r\<in>set (rawRecords w v). rr_Name r = g \<and>
           (\<forall>e\<in>set (rr_Records r). \<forall>q'. variant q' (rre_Name e) \<longrightarrow>
              (\<exists>z. zs_Z zones (Normalize q') = Some z \<and> z_Name z = Normalize (rre_Name e)))"
    using g by blast
qed


theorem normalize_canonical_witness:
  "variant ''HOST.Example.COM.'' ''host.example.com''
   \<and> Normalize ''HOST.Example.COM.'' = Normalize ''host.example.com''
   \<and> v_ClientZones (fst (loadConfig ipv4_cidr good_sources initial_views)) ''internal'' =
       Some (buildZones (rr_Records sample_internal_records))
   \<and> (\<exists>z. zs_Z (buildZones (rr_Records sample_internal_records)) (Normalize ''HOST.Example.COM.'') =
          Some z \<and> z_Name z = ''host.example.com.'')"
proof -
  let ?zones = "buildZones (rr_Records sample_internal_records)"
  note canon = normalize_canonical
    [where q = "''HOST.Example.COM.''" and n = "''host.example.com''" and pc = ipv4_cidr
       and w = good_sources and v = initial_views and g = "''internal''" and zones = ?zones]
  have var: "variant ''HOST.Example.COM.'' ''host.example.com''"
    unfolding variant_def by code_simp
  from canon have "variant ''HOST.Example.COM.'' ''host.example.com'' \<longleftrightarrow>
      Normalize ''HOST.Example.COM.'' = Normalize ''host.example.com''"
    by (elim conjE)
  with var have same: "Normalize ''HOST.Example.COM.'' = Normalize ''host.example.com''"
    by simp
  from canon have "v_ClientZones (fst (loadConfig ipv4_cidr good_sources initial_views)) ''internal'' =
      Some ?zones \<longrightarrow>
        (\<exists>r\<in>set (rawRecords good_sources initial_views). rr_Name r = ''internal'' \<and>
           (\<forall>e\<in>set (rr_Records r). \<forall>q'. variant q' (rre_Name e) \<longrightarrow>
              (\<exists>z. zs_Z ?zones (Normalize q') = Some z \<and> z_Name z = Normalize (rre_Name e))))"
    by (elim conjE)
  with serving_internal obtain r
    where r: "r \<in> set (rawRecords good_sources initial_views)" and g: "rr_Name r = ''internal''"
      and found: "\<forall>e\<in>set (rr_Records r). \<forall>q'. variant q' (rre_Name e) \<longrightarrow>
              (\<exists>z. zs_Z ?zones (Normalize q') = Some z \<and> z_Name z = Normalize (rre_Name e))"
    by (elim impE bexE conjE)
  from r have "r \<in> set sample_records"
    by (simp only: rawRecords_good)
  then have "r = sample_internal_records"
    using g by (rule sample_set_named_internal)
  then have "entry_host \<in> set (rr_Records r)"
    by (simp add: sample_internal_records_def)
  moreover have "variant ''HOST.Example.COM.'' (rre_Name entry_host)"
    using var by (simp add: entry_host_def)
  ultimately have "\<exists>z. zs_Z ?zones (Normalize ''HOST.Example.COM.'') = Some z
      \<and> z_Name z = Normalize (rre_Name entry_host)"
    using found by blast
  then have "\<exists>z. zs_Z ?zones (Normalize ''HOST.Example.COM.'') = Some z
      \<and> z_Name z = ''host.example.com.''"
    by (simp add: entry_host_def norm_host)
  with var same serving_internal show ?thesis
    by (intro conjI)
qed

lemma type_string_iff:
  assumes "ToLower U = L" and "ToUpper L = U"
  shows "ToUpper ty = U \<longleftrightarrow> ToLower ty = L"
proof
  assume "ToUpper ty = U"
  then have "ToLower (ToUpper ty) = L"
    using assms(1) by simp
  then show "ToLower ty = L"
    by (simp add: ToLower_ToUpper)
next
  assume "ToLower ty = L"
  then have "ToUpper (ToLower ty) = U"
    using assms(2) by simp
  then show "ToUpper ty = U"
    by (simp add: ToUpper_ToLower)
qed

lemma upper_A_iff: "ToUpper ty = ''A'' \<longleftrightarrow> ToLower ty = ''a''"
  by (rule type_string_iff) code_simp+

lemma upper_AAAA_iff: "ToUpper ty = ''AAAA'' \<longleftrightarrow> ToLower ty = ''aaaa''"
  by (rule type_string_iff) code_simp+

lemma upper_CNAME_iff: "ToUpper ty = ''CNAME'' \<longleftrightarrow> ToLower ty = ''cname''"
  by (rule type_string_iff) code_simp+

lemma upper_TXT_iff: "ToUpper ty = ''TXT'' \<longleftrightarrow> ToLower ty = ''txt''"
  by (rule type_string_iff) code_simp+

lemmas upper_iffs = upper_A_iff upper_AAAA_iff upper_CNAME_iff upper_TXT_iff

lemmas type_defs = TypeNone_def TypeA_def TypeAAAA_def TypeCNAME_def TypeTXT_def

lemma rrtype_of_lower:
  "rrtype_of ty =
     (if ToLower ty = ''a'' then TypeA
      else if ToLower ty = ''aaaa'' then TypeAAAA
      else if ToLower ty = ''cname'' then TypeCNAME
      else if ToLower ty = ''txt'' then TypeTXT
      else TypeNone)"
  by (simp add: rrtype_of_def Let_def upper_iffs TypeNone_def)

text \<open>
  Claim C8. The type string is matched without regard to letter case against exactly
  \<open>A\<close>, \<open>AAAA\<close>, \<open>CNAME\<close> and \<open>TXT\<close>; every other string gives the zero type (UNKNOWN).
  An entry with an unknown type string is stored in the record set like any other, with
  type UNKNOWN, and the resolver declines on it: no answer ever carries the type UNKNOWN.
\<close>

theorem unknown_type_stored_not_answered:
  "(ToLower ty = ToLower ty' \<longrightarrow> rrtype_of ty = rrtype_of ty')
   \<and> (rrtype_of ty = TypeA \<longleftrightarrow> ToLower ty = ''a'')
   \<and> (rrtype_of ty = TypeAAAA \<longleftrightarrow> ToLower ty = ''aaaa'')
   \<and> (rrtype_of ty = TypeCNAME \<longleftrightarrow> ToLower ty = ''cname'')
   \<and> (rrtype_of ty = TypeTXT \<longleftrightarrow> ToLower ty = ''txt'')
   \<and> (rrtype_of ty = TypeNone \<longleftrightarrow> ToLower ty \<notin> {''a'', ''aaaa'', ''cname'', ''txt''})
   \<and> (v_ClientZones (fst (loadConfig pc w v)) g = Some zones \<longrightarrow>
        (\<exists>r\<in>set (rawRecords w v). rr_Name r = g \<and>
           (\<forall>pre e post. rr_Records r = pre @ e # post
                \<and> (\<forall>e'\<in>set post. Normalize (rre_Name e') \<noteq> Normalize (rre_Name e))
                \<and> ToLower (rre_Type e) \<notin> {''a'', ''aaaa'', ''cname'', ''txt''}
              \<longrightarrow> zs_Z zones (Normalize (rre_Name e)) = Some (mkZone e)
                  \<and> z_Type (mkZone e) = TypeNone)))
   \<and> (match contains (v_ClientACLs s) a = Some g' \<and> v_ClientZones s g' = Some rs
        \<and> zs_Z rs (Normalize q) = Some z \<and> z_Type z = TypeNone
        \<longrightarrow> resolve contains s a q t = Decline)
   \<and> (resolve contains s a q t = Answer ttl aty val \<longrightarrow> aty \<noteq> TypeNone)"
proof (intro conjI impI)
  assume "ToLower ty = ToLower ty'"
  then show "rrtype_of ty = rrtype_of ty'"
    by (simp add: rrtype_of_lower)
next
  show "rrtype_of ty = TypeA \<longleftrightarrow> ToLower ty = ''a''"
    by (simp add: rrtype_of_lower type_defs)
  show "rrtype_of ty = TypeAAAA \<longleftrightarrow> ToLower ty = ''aaaa''"
    by (simp add: rrtype_of_lower type_defs)
  show "rrtype_of ty = TypeCNAME \<longleftrightarrow> ToLower ty = ''cname''"
    by (simp add: rrtype_of_lower type_defs)
  show "rrtype_of ty = TypeTXT \<longleftrightarrow> ToLower ty = ''txt''"
    by (simp add: rrtype_of_lower type_defs)
  show "rrtype_of ty = TypeNone \<longleftrightarrow> ToLower ty \<notin> {''a'', ''aaaa'', ''cname'', ''txt''}"
    by (simp add: rrtype_of_lower type_defs)
next
  assume "v_ClientZones (fst (loadConfig pc w v)) g = Some zones"
  from loaded_zones [OF this] obtain before r after
    where raw: "rawRecords w v = before @ r # after" and g: "rr_Name r = g"
      and z: "zones = buildZones (rr_Records r)"
    by blast
  have "zs_Z zones (Normalize (rre_Name e)) = Some (mkZone e) \<and> z_Type (mkZone e) = TypeNone"
    if "rr_Records r = pre @ e # post"
      and "\<forall>e'\<in>set post. Normalize (rre_Name e') \<noteq> Normalize (rre_Name e)"
      and "ToLower (rre_Type e) \<notin> {''a'', ''aaaa'', ''cname'', ''txt''}" for pre e post
  proof
    show "zs_Z zones (Normalize (rre_Name e)) = Some (mkZone e)"
      unfolding z that(1) using that(2) by (rule buildZones_last)
    from that(3) show "z_Type (mkZone e) = TypeNone"
      by (simp add: mkZone_def rrtype_of_lower)
  qed
  moreover have "r \<in> set (rawRecords w v)"
    by (simp add: raw)
  ultimately show "\<exists>r\<in>set (rawRecords w v). rr_Name r = g \<and>
           (\<forall>pre e post. rr_Records r = pre @ e # post
                \<and> (\<forall>e'\<in>set post. Normalize (rre_Name e') \<noteq> Normalize (rre_Name e))
                \<and> ToLower (rre_Type e) \<notin> {''a'', ''aaaa'', ''cname'', ''txt''}
              \<longrightarrow> zs_Z zones (Normalize (rre_Name e)) = Some (mkZone e)
                  \<and> z_Type (mkZone e) = TypeNone)"
    using g by blast
next
  assume "match contains (v_ClientACLs s) a = Some g' \<and> v_ClientZones s g' = Some rs
        \<and> zs_Z rs (Normalize q) = Some z \<and> z_Type z = TypeNone"
  then show "resolve contains s a q t = Decline"
    by (simp add: resolve_def)
next
  assume "resolve contains s a q t = Answer ttl aty val"
  then show "aty \<noteq> TypeNone"
    by (auto simp: resolve_def split: option.splits if_splits)
qed

theorem unknown_type_stored_not_answered_witness:
  "ToLower ''cname'' = ToLower ''CName''
   \<and> rrtype_of ''cname'' = rrtype_of ''CName''
   \<and> v_ClientZones (fst (loadConfig ipv4_cidr good_sources initial_views)) ''internal'' =
       Some (buildZones (rr_Records sample_internal_records))
   \<and> ToLower (rre_Type entry_srv) \<notin> {''a'', ''aaaa'', ''cname'', ''txt''}
   \<and> zs_Z (buildZones (rr_Records sample_internal_records)) (Normalize (rre_Name entry_srv)) =
       Some (mkZone entry_srv)
   \<and> z_Type (mkZone entry_srv) = TypeNone
   \<and> resolve ipv4_contains (fst (loadConfig ipv4_cidr good_sources initial_views))
         0x0A050505 ''srv.example.com'' TypeNone = Decline
   \<and> resolve ipv4_contains (fst (loadConfig ipv4_cidr good_sources initial_views))
         0x0A050505 ''host.example.com'' TypeA = Answer 300 TypeA ''10.1.2.3.''
   \<and> TypeA \<noteq> TypeNone"
proof -
  let ?good = "fst (loadConfig ipv4_cidr good_sources initial_views)"
  let ?zones = "buildZones (rr_Records sample_internal_records)"
  note unknown = unknown_type_stored_not_answered
    [where ty = "''cname''" and ty' = "''CName''" and pc = ipv4_cidr and w = good_sources
       and v = initial_views and g = "''internal''" and zones = ?zones
       and contains = ipv4_contains and s = ?good and a = "0x0A050505" and g' = "''internal''"
       and rs = ?zones and q = "''srv.example.com''" and z = "mkZone entry_srv" and t = TypeNone
       and ttl = 300 and aty = TypeA and val = "''10.1.2.3.''"]
  note answered = unknown_type_stored_not_answered
    [where ty = "''cname''" and ty' = "''CName''" and pc = ipv4_cidr and w = good_sources
       and v = initial_views and g = "''internal''" and zones = ?zones
       and contains = ipv4_contains and s = ?good and a = "0x0A050505" and g' = "''internal''"
       and rs = ?zones and q = "''host.example.com''" and z = "mkZone entry_host" and t = TypeA
       and ttl = 300 and aty = TypeA and val = "''10.1.2.3.''"]
  have fold: "ToLower ''cname'' = ToLower ''CName''"
    by code_simp
  from unknown have "ToLower ''cname'' = ToLower ''CName'' \<longrightarrow> rrtype_of ''cname'' = rrtype_of ''CName''"
    by (elim conjE)
  with fold have same: "rrtype_of ''cname'' = rrtype_of ''CName''"
    by simp
  have other: "ToLower (rre_Type entry_srv) \<notin> {''a'', ''aaaa'', ''cname'', ''txt''}"
  proof -
    have "ToLower ''SRV'' = ''srv''"
      by code_simp
    then show ?thesis
      by (simp add: entry_srv_def)
  qed
  from unknown have "v_ClientZones ?good ''internal'' = Some ?zones \<longrightarrow>
        (\<exists>r\<in>set (rawRecords good_sources initial_views). rr_Name r = ''internal'' \<and>
           (\<forall>pre e post. rr_Records r = pre @ e # post
                \<and> (\<forall>e'\<in>set post. Normalize (rre_Name e') \<noteq> Normalize (rre_Name e))
                \<and> ToLower (rre_Type e) \<notin> {''a'', ''aaaa'', ''cname'', ''txt''}
              \<longrightarrow> zs_Z ?zones (Normalize (rre_Name e)) = Some (mkZone e)
                  \<and> z_Type (mkZone e) = TypeNone))"
    by (elim conjE)
  with serving_internal obtain r
    where r: "r \<in> set (rawRecords good_sources initial_views)" and g: "rr_Name r = ''internal''"
      and kept: "\<forall>pre e post. rr_Records r = pre @ e # post
                \<and> (\<forall>e'\<in>set post. Normalize (rre_Name e') \<noteq> Normalize (rre_Name e))
                \<and> ToLower (rre_Type e) \<notin> {''a'', ''aaaa'', ''cname'', ''txt''}
              \<longrightarrow> zs_Z ?zones (Normalize (rre_Name e)) = Some (mkZone e)
                  \<and> z_Type (mkZone e) = TypeNone"
    by (elim impE bexE conjE)
  from r have "r \<in> set sample_records"
    by (simp only: rawRecords_good)
  then have "r = sample_internal_records"
    using g by (rule sample_set_named_internal)
  then have split: "rr_Records r = [entry_host, entry_dup1, entry_dup2, entry_txt] @ entry_srv # []"
    by (simp add: sample_internal_records_def)
  have last: "\<forall>e'\<in>set []. Normalize (rre_Name e') \<noteq> Normalize (rre_Name entry_srv)"
    by simp
  have stored: "zs_Z ?zones (Normalize (rre_Name entry_srv)) = Some (mkZone entry_srv)
      \<and> z_Type (mkZone entry_srv) = TypeNone"
    by (rule kept [rule_format, OF conjI, OF split conjI, OF last other])
  then have stored': "zs_Z ?zones (Normalize ''srv.example.com'') = Some (mkZone entry_srv)"
    by (simp add: entry_srv_def)
  from unknown have "match ipv4_contains (v_ClientACLs ?good) 0x0A050505 = Some ''internal''
        \<and> v_ClientZones ?good ''internal'' = Some ?zones
        \<and> zs_Z ?zones (Normalize ''srv.example.com'') = Some (mkZone entry_srv)
        \<and> z_Type (mkZone entry_srv) = TypeNone
        \<longrightarrow> resolve ipv4_contains ?good 0x0A050505 ''srv.example.com'' TypeNone = Decline"
    by (elim conjE)
  with match_good_10 serving_internal stored stored'
  have declined: "resolve ipv4_contains ?good 0x0A050505 ''srv.example.com'' TypeNone = Decline"
    by simp
  from answered have "resolve ipv4_contains ?good 0x0A050505 ''host.example.com'' TypeA =
      Answer 300 TypeA ''10.1.2.3.'' \<longrightarrow> TypeA \<noteq> TypeNone"
    by (elim conjE)
  with resolve_good_host have usable: "TypeA \<noteq> TypeNone"
    by simp
  from stored have s1: "zs_Z ?zones (Normalize (rre_Name entry_srv)) = Some (mkZone entry_srv)"
    and s2: "z_Type (mkZone entry_srv) = TypeNone"
    by simp_all
  show ?thesis
    using fold same serving_internal other s1 s2 declined resolve_good_host usable
    by (intro conjI)
qed

section \<open>A refresh that fails\<close>

lemma loadConfig_keeps:
  "v_Client (fst (loadConfig pc w v)) = v_Client v"
  "v_Record (fst (loadConfig pc w v)) = v_Record v"
  "v_ClientSchema (fst (loadConfig pc w v)) = v_ClientSchema v"
  "v_RecordSchema (fst (loadConfig pc w v)) = v_RecordSchema v"
  "v_ReloadInterval (fst (loadConfig pc w v)) = v_ReloadInterval v"
  by (simp_all add: loadConfig_def split: prod.splits)

lemma serving_schemas:
  "v_ClientSchema serving_views = SchemaYAML" "v_RecordSchema serving_views = SchemaYAML"
  by (simp_all add: serving_views_def loadConfig_keeps initial_views_def)

lemma fetchClients_down:
  "fetchClients down_sources serving_views = ([], Some ''open: no such file or directory'')"
  by (simp add: fetchClients_def serving_schemas down_sources_def)

lemma fetchRecords_down:
  "fetchRecords down_sources serving_views err = ([], Some ''open: no such file or directory'')"
  by (simp add: fetchRecords_def serving_schemas down_sources_def)

text \<open>
  Claim C1 says that a refresh whose sources cannot be read leaves the published
  configuration as it was. The code logs the two errors and goes on: it rebuilds both fields
  from the empty slices. Here the state that serves the sample configuration is refreshed in
  a world where neither file can be read: the groups and the record sets are gone, and the
  query that was answered before is declined after.
\<close>

theorem failed_refresh_blanks_state:
  "v_ClientACLs serving_views \<noteq> []
   \<and> v_ClientZones serving_views ''internal'' \<noteq> None
   \<and> resolve ipv4_contains serving_views 0x0A050505 ''host.example.com'' TypeA =
       Answer 300 TypeA ''10.1.2.3.''
   \<and> snd (fetchClients down_sources serving_views) \<noteq> None
   \<and> snd (loadConfig ipv4_cidr down_sources serving_views) =
       [LogError ''open: no such file or directory'', LogError ''open: no such file or directory'']
   \<and> v_ClientACLs (fst (loadConfig ipv4_cidr down_sources serving_views)) = []
   \<and> v_ClientZones (fst (loadConfig ipv4_cidr down_sources serving_views)) = Map.empty
   \<and> resolve ipv4_contains (fst (loadConfig ipv4_cidr down_sources serving_views))
         0x0A050505 ''host.example.com'' TypeA = Decline
   \<and> fst (loadConfig ipv4_cidr down_sources serving_views) \<noteq> serving_views"
proof -
  let ?after = "fst (loadConfig ipv4_cidr down_sources serving_views)"
  have before_acls: "v_ClientACLs serving_views \<noteq> []"
    by (simp add: serving_views_def loadConfig_ACLs rawClients_good sample_clients_def)
  have before_zones: "v_ClientZones serving_views ''internal'' \<noteq> None"
    by (simp add: serving_views_def serving_internal)
  have before_answer: "resolve ipv4_contains serving_views 0x0A050505 ''host.example.com'' TypeA =
       Answer 300 TypeA ''10.1.2.3.''"
    unfolding serving_views_def by (rule resolve_good_host)
  have failed: "snd (fetchClients down_sources serving_views) \<noteq> None"
    by (simp add: fetchClients_down)
  have raw_c: "rawClients down_sources serving_views = []"
    by (simp add: rawClients_def fetchClients_down)
  have raw_r: "rawRecords down_sources serving_views = []"
    by (simp add: rawRecords_def fetchRecords_down)
  have logged: "snd (loadConfig ipv4_cidr down_sources serving_views) =
       [LogError ''open: no such file or directory'', LogError ''open: no such file or directory'']"
    by (simp add: loadConfig_log fetchClients_down fetchRecords_down raw_c logError_def)
  have after_acls: "v_ClientACLs ?after = []"
    by (simp add: loadConfig_ACLs raw_c)
  have after_zones: "v_ClientZones ?after = Map.empty"
    by (simp add: loadConfig_Zones raw_r buildClientZones_def)
  have after_answer: "resolve ipv4_contains ?after 0x0A050505 ''host.example.com'' TypeA = Decline"
    by (simp add: resolve_def after_acls)
  from before_acls after_acls have changed: "?after \<noteq> serving_views"
    by auto
  show ?thesis
    using before_acls before_zones before_answer failed logged after_acls after_zones
      after_answer changed
    by (intro conjI)
qed

theorem failed_refresh_blanks_state_witness:
  "resolve ipv4_contains serving_views 0x0A050505 ''host.example.com'' TypeA \<noteq>
     resolve ipv4_contains (fst (loadConfig ipv4_cidr down_sources serving_views))
       0x0A050505 ''host.example.com'' TypeA"
  using failed_refresh_blanks_state by simp

section \<open>Publication of a refresh\<close>

subsection \<open>The trace of writes\<close>

lemma loadConfig_fst:
  "fst (loadConfig pc w v) =
     v\<lparr>v_ClientACLs := map (aclOf pc) (rawClients w v),
       v_ClientZones := buildClientZones (rawRecords w v)\<rparr>"
  by (simp add: loadConfig_def buildACLs_eq rawClients_def rawRecords_def split: prod.splits)

lemma clients_trace_length: "length (clients_trace pc cs v) = length cs"
  by (induction cs arbitrary: v) (simp_all add: Let_def)

lemma clients_trace_nth:
  "i < length cs \<Longrightarrow>
     clients_trace pc cs v ! i =
       v\<lparr>v_ClientACLs := v_ClientACLs v @ map (aclOf pc) (take (Suc i) cs)\<rparr>"
proof (induction cs arbitrary: v i)
  case Nil
  then show ?case by simp
next
  case (Cons c cs)
  show ?case
  proof (cases i)
    case 0
    then show ?thesis
      by (simp add: Let_def client_step_eq)
  next
    case (Suc k)
    with Cons.prems have "k < length cs" by simp
    from Cons.IH [OF this] Suc show ?thesis
      by (simp add: Let_def client_step_eq)
  qed
qed

lemma records_trace_length: "length (records_trace rs v) = length rs"
  by (induction rs arbitrary: v) (simp_all add: Let_def)

lemma records_trace_nth:
  "j < length rs \<Longrightarrow>
     records_trace rs v ! j =
       v\<lparr>v_ClientZones := fold set_step (take (Suc j) rs) (v_ClientZones v)\<rparr>"
proof (induction rs arbitrary: v j)
  case Nil
  then show ?case by simp
next
  case (Cons r rs)
  show ?case
  proof (cases j)
    case 0
    then show ?thesis
      by (simp add: Let_def)
  next
    case (Suc k)
    with Cons.prems have "k < length rs" by simp
    from Cons.IH [OF this] Suc show ?thesis
      by (simp add: Let_def)
  qed
qed

lemma clients_trace_last:
  "last (v # clients_trace pc cs v) = v\<lparr>v_ClientACLs := v_ClientACLs v @ map (aclOf pc) cs\<rparr>"
proof (cases "cs = []")
  case True
  then show ?thesis by simp
next
  case False
  then have n: "length cs - 1 < length cs" by simp
  from False have "clients_trace pc cs v \<noteq> []"
    using clients_trace_length [of pc cs v] by auto
  then have "last (v # clients_trace pc cs v) = clients_trace pc cs v ! (length cs - 1)"
    by (simp add: last_conv_nth clients_trace_length)
  also have "\<dots> = v\<lparr>v_ClientACLs := v_ClientACLs v @ map (aclOf pc) (take (Suc (length cs - 1)) cs)\<rparr>"
    by (rule clients_trace_nth [OF n])
  finally show ?thesis
    using False by simp
qed

lemma records_trace_last:
  "last (v # records_trace rs v) = v\<lparr>v_ClientZones := fold set_step rs (v_ClientZones v)\<rparr>"
proof (cases "rs = []")
  case True
  then show ?thesis by simp
next
  case False
  then have n: "length rs - 1 < length rs" by simp
  from False have "records_trace rs v \<noteq> []"
    using records_trace_length [of rs v] by auto
  then have "last (v # records_trace rs v) = records_trace rs v ! (length rs - 1)"
    by (simp add: last_conv_nth records_trace_length)
  also have "\<dots> = v\<lparr>v_ClientZones := fold set_step (take (Suc (length rs - 1)) rs) (v_ClientZones v)\<rparr>"
    by (rule records_trace_nth [OF n])
  finally show ?thesis
    using False by simp
qed

lemma loadConfig_trace_eq:
  "loadConfig_trace pc w v =
     v\<lparr>v_ClientACLs := []\<rparr>
     # clients_trace pc (rawClients w v) (v\<lparr>v_ClientACLs := []\<rparr>)
     @ v\<lparr>v_ClientACLs := map (aclOf pc) (rawClients w v), v_ClientZones := Map.empty\<rparr>
     # records_trace (rawRecords w v)
         (v\<lparr>v_ClientACLs := map (aclOf pc) (rawClients w v), v_ClientZones := Map.empty\<rparr>)"
  by (simp only: loadConfig_trace_def Let_def clients_trace_last) simp

lemma loadConfig_trace_length:
  "length (loadConfig_trace pc w v) = length (rawClients w v) + length (rawRecords w v) + 2"
  by (simp add: loadConfig_trace_eq clients_trace_length records_trace_length)

lemma loadConfig_trace_groups:
  assumes "i \<le> length (rawClients w v)"
  shows "loadConfig_trace pc w v ! i =
           v\<lparr>v_ClientACLs := take i (v_ClientACLs (fst (loadConfig pc w v)))\<rparr>"
proof (cases i)
  case 0
  then show ?thesis
    by (simp add: loadConfig_trace_eq)
next
  case (Suc k)
  with assms have k: "k < length (rawClients w v)" by simp
  have "loadConfig_trace pc w v ! i =
      clients_trace pc (rawClients w v) (v\<lparr>v_ClientACLs := []\<rparr>) ! k"
    using k by (simp add: loadConfig_trace_eq Suc nth_append clients_trace_length)
  also have "\<dots> = v\<lparr>v_ClientACLs := map (aclOf pc) (take (Suc k) (rawClients w v))\<rparr>"
    by (simp add: clients_trace_nth [OF k])
  finally show ?thesis
    by (simp add: Suc loadConfig_ACLs take_map)
qed

lemma loadConfig_trace_sets:
  assumes "j \<le> length (rawRecords w v)"
  shows "loadConfig_trace pc w v ! (length (rawClients w v) + 1 + j) =
           v\<lparr>v_ClientACLs := v_ClientACLs (fst (loadConfig pc w v)),
             v_ClientZones := buildClientZones (take j (rawRecords w v))\<rparr>"
proof -
  let ?v3 = "v\<lparr>v_ClientACLs := map (aclOf pc) (rawClients w v), v_ClientZones := Map.empty\<rparr>"
  have at: "loadConfig_trace pc w v ! (length (rawClients w v) + 1 + j) =
      (?v3 # records_trace (rawRecords w v) ?v3) ! j"
    by (simp add: loadConfig_trace_eq nth_append clients_trace_length)
  show ?thesis
  proof (cases j)
    case 0
    with at show ?thesis
      by (simp add: loadConfig_ACLs buildClientZones_def)
  next
    case (Suc k)
    with assms have k: "k < length (rawRecords w v)" by simp
    from at Suc have "loadConfig_trace pc w v ! (length (rawClients w v) + 1 + j) =
        records_trace (rawRecords w v) ?v3 ! k"
      by simp
    also have "\<dots> = ?v3\<lparr>v_ClientZones := fold set_step (take (Suc k) (rawRecords w v)) (v_ClientZones ?v3)\<rparr>"
      by (rule records_trace_nth [OF k])
    finally show ?thesis
      by (simp add: Suc loadConfig_ACLs buildClientZones_def)
  qed
qed

lemma loadConfig_trace_last:
  "last (loadConfig_trace pc w v) = fst (loadConfig pc w v)"
proof -
  let ?v3 = "v\<lparr>v_ClientACLs := map (aclOf pc) (rawClients w v), v_ClientZones := Map.empty\<rparr>"
  have "last (loadConfig_trace pc w v) = last (?v3 # records_trace (rawRecords w v) ?v3)"
    by (simp add: loadConfig_trace_eq)
  also have "\<dots> = ?v3\<lparr>v_ClientZones := fold set_step (rawRecords w v) (v_ClientZones ?v3)\<rparr>"
    by (rule records_trace_last)
  finally show ?thesis
    by (simp add: loadConfig_fst buildClientZones_def)
qed

lemma loadConfig_trace_cases:
  assumes "s \<in> set (loadConfig_trace pc w v)"
  shows "(\<exists>i\<le>length (rawClients w v).
            s = v\<lparr>v_ClientACLs := take i (v_ClientACLs (fst (loadConfig pc w v)))\<rparr>)
         \<or> (\<exists>j\<le>length (rawRecords w v).
            s = v\<lparr>v_ClientACLs := v_ClientACLs (fst (loadConfig pc w v)),
                  v_ClientZones := buildClientZones (take j (rawRecords w v))\<rparr>)"
proof -
  let ?n = "length (rawClients w v)" and ?m = "length (rawRecords w v)"
  from assms obtain k where k: "k < ?n + ?m + 2" and s: "loadConfig_trace pc w v ! k = s"
    by (auto simp: in_set_conv_nth loadConfig_trace_length)
  show ?thesis
  proof (cases "k \<le> ?n")
    case True
    from loadConfig_trace_groups [OF True, of pc] s True show ?thesis
      by auto
  next
    case False
    define j where "j = k - (?n + 1)"
    with False k have j: "j \<le> ?m" and kj: "k = ?n + 1 + j"
      by simp_all
    from loadConfig_trace_sets [OF j, of pc] s kj j show ?thesis
      by auto
  qed
qed

lemma buildClientZones_SomeD:
  assumes "buildClientZones rs g = Some zones"
  shows "\<exists>r\<in>set rs. rr_Name r = g \<and> zones = buildZones (rr_Records r)"
proof -
  from assms obtain r where f: "find (\<lambda>r. rr_Name r = g) (rev rs) = Some r"
    and z: "zones = buildZones (rr_Records r)"
    by (auto simp: buildClientZones_eq)
  from find_rev_SomeD [OF f] obtain pre post where "rs = pre @ r # post" and "rr_Name r = g"
    by blast
  with z show ?thesis
    by auto
qed

subsection \<open>The sample state, refreshed\<close>

lemma rawClients_good_serving: "rawClients good_sources serving_views = sample_clients"
  by (simp add: rawClients_def fetchClients_def serving_schemas good_sources_def)

lemma rawRecords_good_serving: "rawRecords good_sources serving_views = sample_records"
  by (simp add: rawRecords_def fetchRecords_def serving_schemas good_sources_def)

lemma serving_views_eq:
  "serving_views =
     initial_views\<lparr>v_ClientACLs := map (aclOf ipv4_cidr) sample_clients,
                   v_ClientZones := buildClientZones sample_records\<rparr>"
  by (simp only: serving_views_def loadConfig_fst rawClients_good rawRecords_good)

lemma reload_same: "fst (loadConfig ipv4_cidr good_sources serving_views) = serving_views"
proof -
  have "fst (loadConfig ipv4_cidr good_sources serving_views) =
      serving_views\<lparr>v_ClientACLs := map (aclOf ipv4_cidr) sample_clients,
                    v_ClientZones := buildClientZones sample_records\<rparr>"
    by (simp only: loadConfig_fst rawClients_good_serving rawRecords_good_serving)
  also have "\<dots> = serving_views"
    by (simp add: serving_views_eq)
  finally show ?thesis .
qed

lemma serving_groups:
  "v_ClientACLs serving_views = [aclOf ipv4_cidr sample_internal, aclOf ipv4_cidr sample_external]"
  by (simp add: serving_views_eq sample_clients_def)

text \<open>
  Claim C2 says that publication is atomic: a reader sees the complete configuration from
  before a refresh or the complete one from after it, never an intermediate state. The
  first write of \<^verbatim>\<open>loadConfig\<close> empties \<^verbatim>\<open>v.ClientACLs\<close> in place. Here the state serving
  the sample configuration is refreshed from the same, readable sources: the state after
  the first write is neither the state before nor the state after the refresh, and the
  query that both of them answer is declined in it.
\<close>

theorem publication_atomic_counterexample:
  "loadConfig_trace ipv4_cidr good_sources serving_views ! 0 = serving_views\<lparr>v_ClientACLs := []\<rparr>
   \<and> loadConfig_trace ipv4_cidr good_sources serving_views ! 0 \<noteq> serving_views
   \<and> loadConfig_trace ipv4_cidr good_sources serving_views ! 0 \<noteq>
       fst (loadConfig ipv4_cidr good_sources serving_views)
   \<and> resolve ipv4_contains serving_views 0x0A050505 ''host.example.com'' TypeA =
       Answer 300 TypeA ''10.1.2.3.''
   \<and> resolve ipv4_contains (fst (loadConfig ipv4_cidr good_sources serving_views))
         0x0A050505 ''host.example.com'' TypeA = Answer 300 TypeA ''10.1.2.3.''
   \<and> resolve ipv4_contains (loadConfig_trace ipv4_cidr good_sources serving_views ! 0)
         0x0A050505 ''host.example.com'' TypeA = Decline"
proof -
  let ?mid = "loadConfig_trace ipv4_cidr good_sources serving_views ! 0"
  have mid: "?mid = serving_views\<lparr>v_ClientACLs := []\<rparr>"
    by (simp add: loadConfig_trace_eq)
  have "v_ClientACLs ?mid = []"
    by (simp add: mid)
  moreover have "v_ClientACLs serving_views \<noteq> []"
    by (simp add: serving_groups)
  ultimately have differs: "?mid \<noteq> serving_views"
    by auto
  have differs': "?mid \<noteq> fst (loadConfig ipv4_cidr good_sources serving_views)"
    unfolding reload_same by (rule differs)
  have before: "resolve ipv4_contains serving_views 0x0A050505 ''host.example.com'' TypeA =
       Answer 300 TypeA ''10.1.2.3.''"
    unfolding serving_views_def by (rule resolve_good_host)
  have after: "resolve ipv4_contains (fst (loadConfig ipv4_cidr good_sources serving_views))
         0x0A050505 ''host.example.com'' TypeA = Answer 300 TypeA ''10.1.2.3.''"
    unfolding reload_same by (rule before)
  have during: "resolve ipv4_contains ?mid 0x0A050505 ''host.example.com'' TypeA = Decline"
    by (simp add: mid resolve_def)
  from mid differs differs' before after during show ?thesis
    by (intro conjI)
qed

text \<open>
  Claim C2, as amended. Publication is not atomic: \<^verbatim>\<open>loadConfig\<close> writes the shared state
  in place, one write after the other. The states that exist during a refresh are exactly
  these, in order: the old state with the group list cut down to the first \<open>i\<close> new groups,
  for \<open>i\<close> from zero to the number of raw groups, the record sets still the old ones; then
  the new group list with the record sets built from the first \<open>j\<close> raw record sets, for
  \<open>j\<close> from zero to their number. The state after the last write is the result of
  \<^verbatim>\<open>loadConfig\<close>. A group or a record set is complete when it becomes visible: every
  group of such a state is a group of the new configuration, and every record set of such a
  state is a record set of the old state or the record set built from a raw record set of
  that name.
\<close>

theorem loadConfig_publishes_in_place:
  "length (loadConfig_trace pc w v) = length (rawClients w v) + length (rawRecords w v) + 2
   \<and> (i \<le> length (rawClients w v) \<longrightarrow>
        loadConfig_trace pc w v ! i =
          v\<lparr>v_ClientACLs := take i (v_ClientACLs (fst (loadConfig pc w v)))\<rparr>)
   \<and> (j \<le> length (rawRecords w v) \<longrightarrow>
        loadConfig_trace pc w v ! (length (rawClients w v) + 1 + j) =
          v\<lparr>v_ClientACLs := v_ClientACLs (fst (loadConfig pc w v)),
            v_ClientZones := buildClientZones (take j (rawRecords w v))\<rparr>)
   \<and> last (loadConfig_trace pc w v) = fst (loadConfig pc w v)
   \<and> (s \<in> set (loadConfig_trace pc w v) \<and> a \<in> set (v_ClientACLs s) \<longrightarrow>
        a \<in> set (v_ClientACLs (fst (loadConfig pc w v))))
   \<and> (s \<in> set (loadConfig_trace pc w v) \<and> v_ClientZones s g = Some zones \<longrightarrow>
        v_ClientZones v g = Some zones
        \<or> (\<exists>r\<in>set (rawRecords w v). rr_Name r = g \<and> zones = buildZones (rr_Records r)))"
proof (intro conjI impI)
  show "length (loadConfig_trace pc w v) = length (rawClients w v) + length (rawRecords w v) + 2"
    by (rule loadConfig_trace_length)
  show "last (loadConfig_trace pc w v) = fst (loadConfig pc w v)"
    by (rule loadConfig_trace_last)
next
  assume "i \<le> length (rawClients w v)"
  then show "loadConfig_trace pc w v ! i =
          v\<lparr>v_ClientACLs := take i (v_ClientACLs (fst (loadConfig pc w v)))\<rparr>"
    by (rule loadConfig_trace_groups)
next
  assume "j \<le> length (rawRecords w v)"
  then show "loadConfig_trace pc w v ! (length (rawClients w v) + 1 + j) =
          v\<lparr>v_ClientACLs := v_ClientACLs (fst (loadConfig pc w v)),
            v_ClientZones := buildClientZones (take j (rawRecords w v))\<rparr>"
    by (rule loadConfig_trace_sets)
next
  assume a: "s \<in> set (loadConfig_trace pc w v) \<and> a \<in> set (v_ClientACLs s)"
  then have "s \<in> set (loadConfig_trace pc w v)" by simp
  from loadConfig_trace_cases [OF this] a
  show "a \<in> set (v_ClientACLs (fst (loadConfig pc w v)))"
    by (auto dest: in_set_takeD)
next
  assume a: "s \<in> set (loadConfig_trace pc w v) \<and> v_ClientZones s g = Some zones"
  then have "s \<in> set (loadConfig_trace pc w v)" by simp
  from loadConfig_trace_cases [OF this]
  show "v_ClientZones v g = Some zones
        \<or> (\<exists>r\<in>set (rawRecords w v). rr_Name r = g \<and> zones = buildZones (rr_Records r))"
  proof
    assume "\<exists>i\<le>length (rawClients w v).
            s = v\<lparr>v_ClientACLs := take i (v_ClientACLs (fst (loadConfig pc w v)))\<rparr>"
    with a have "v_ClientZones v g = Some zones"
      by auto
    then show ?thesis ..
  next
    assume "\<exists>j\<le>length (rawRecords w v).
            s = v\<lparr>v_ClientACLs := v_ClientACLs (fst (loadConfig pc w v)),
                  v_ClientZones := buildClientZones (take j (rawRecords w v))\<rparr>"
    with a obtain j where "buildClientZones (take j (rawRecords w v)) g = Some zones"
      by auto
    from buildClientZones_SomeD [OF this] obtain r
      where "r \<in> set (take j (rawRecords w v))" "rr_Name r = g" "zones = buildZones (rr_Records r)"
      by blast
    then have "\<exists>r\<in>set (rawRecords w v). rr_Name r = g \<and> zones = buildZones (rr_Records r)"
      by (auto dest: in_set_takeD)
    then show ?thesis ..
  qed
qed


theorem loadConfig_publishes_in_place_witness:
  "(1::nat) \<le> length (rawClients good_sources serving_views)
   \<and> loadConfig_trace ipv4_cidr good_sources serving_views ! 1 =
       serving_views\<lparr>v_ClientACLs := [aclOf ipv4_cidr sample_internal]\<rparr>
   \<and> (2::nat) \<le> length (rawRecords good_sources serving_views)
   \<and> loadConfig_trace ipv4_cidr good_sources serving_views ! 3 =
       serving_views\<lparr>v_ClientZones := Map.empty\<rparr>
   \<and> loadConfig_trace ipv4_cidr good_sources serving_views ! 5 = serving_views
   \<and> length (loadConfig_trace ipv4_cidr good_sources serving_views) = 6
   \<and> loadConfig_trace ipv4_cidr good_sources serving_views ! 1
       \<in> set (loadConfig_trace ipv4_cidr good_sources serving_views)
   \<and> aclOf ipv4_cidr sample_internal
       \<in> set (v_ClientACLs (loadConfig_trace ipv4_cidr good_sources serving_views ! 1))
   \<and> aclOf ipv4_cidr sample_internal
       \<in> set (v_ClientACLs (fst (loadConfig ipv4_cidr good_sources serving_views)))
   \<and> v_ClientZones (loadConfig_trace ipv4_cidr good_sources serving_views ! 1) ''internal'' =
       Some (buildZones (rr_Records sample_internal_records))
   \<and> v_ClientZones serving_views ''internal'' = Some (buildZones (rr_Records sample_internal_records))"
proof -
  let ?t = "loadConfig_trace ipv4_cidr good_sources serving_views"
  let ?zones = "buildZones (rr_Records sample_internal_records)"
  have n: "length (rawClients good_sources serving_views) = 2"
    by (simp add: rawClients_good_serving sample_clients_def)
  have m: "length (rawRecords good_sources serving_views) = 2"
    by (simp add: rawRecords_good_serving sample_records_def)
  have one: "(1::nat) \<le> length (rawClients good_sources serving_views)"
    by (simp add: n)
  have two: "(2::nat) \<le> length (rawRecords good_sources serving_views)"
    by (simp add: m)
  have zero: "(0::nat) \<le> length (rawRecords good_sources serving_views)"
    by simp
  note at1 = loadConfig_publishes_in_place
    [where pc = ipv4_cidr and w = good_sources and v = serving_views and i = 1 and j = 0
       and s = "?t ! 1" and a = "aclOf ipv4_cidr sample_internal" and g = "''internal''"
       and zones = ?zones]
  note at5 = loadConfig_publishes_in_place
    [where pc = ipv4_cidr and w = good_sources and v = serving_views and i = 1 and j = 2
       and s = "?t ! 1" and a = "aclOf ipv4_cidr sample_internal" and g = "''internal''"
       and zones = ?zones]
  from at1 [THEN conjunct1] have len: "length ?t = 6"
    by (simp add: n m)
  have "?t ! 1 =
      serving_views\<lparr>v_ClientACLs := take 1 (v_ClientACLs (fst (loadConfig ipv4_cidr good_sources serving_views)))\<rparr>"
    by (rule at1 [THEN conjunct2, THEN conjunct1, THEN mp, OF one])
  then have t1: "?t ! 1 = serving_views\<lparr>v_ClientACLs := [aclOf ipv4_cidr sample_internal]\<rparr>"
    by (simp add: reload_same serving_groups)
  have "?t ! (length (rawClients good_sources serving_views) + 1 + 0) =
      serving_views\<lparr>v_ClientACLs := v_ClientACLs (fst (loadConfig ipv4_cidr good_sources serving_views)),
        v_ClientZones := buildClientZones (take 0 (rawRecords good_sources serving_views))\<rparr>"
    by (rule at1 [THEN conjunct2, THEN conjunct2, THEN conjunct1, THEN mp, OF zero])
  then have t3: "?t ! 3 = serving_views\<lparr>v_ClientZones := Map.empty\<rparr>"
    by (simp add: n reload_same buildClientZones_def)
  have "?t ! (length (rawClients good_sources serving_views) + 1 + 2) =
      serving_views\<lparr>v_ClientACLs := v_ClientACLs (fst (loadConfig ipv4_cidr good_sources serving_views)),
        v_ClientZones := buildClientZones (take 2 (rawRecords good_sources serving_views))\<rparr>"
    by (rule at5 [THEN conjunct2, THEN conjunct2, THEN conjunct1, THEN mp, OF two])
  then have "?t ! 5 = serving_views\<lparr>v_ClientACLs := v_ClientACLs serving_views,
        v_ClientZones := buildClientZones sample_records\<rparr>"
    by (simp add: n m reload_same rawRecords_good_serving sample_records_def)
  also have "\<dots> = serving_views"
    by (simp add: serving_views_eq)
  finally have t5: "?t ! 5 = serving_views" .
  have mem: "?t ! 1 \<in> set ?t"
    by (rule nth_mem) (simp add: len)
  have vis: "aclOf ipv4_cidr sample_internal \<in> set (v_ClientACLs (?t ! 1))"
    unfolding t1 by simp
  have new: "aclOf ipv4_cidr sample_internal
      \<in> set (v_ClientACLs (fst (loadConfig ipv4_cidr good_sources serving_views)))"
    by (rule at1 [THEN conjunct2, THEN conjunct2, THEN conjunct2, THEN conjunct2, THEN conjunct1,
          THEN mp, OF conjI, OF mem vis])
  have old: "v_ClientZones serving_views ''internal'' = Some ?zones"
    unfolding serving_views_def by (rule serving_internal)
  then have zs: "v_ClientZones (?t ! 1) ''internal'' = Some ?zones"
    unfolding t1 by simp
  from one t1 two t3 t5 len mem vis new zs old show ?thesis
    by (intro conjI)
qed

end
